theory Spec2Isabelle
  imports Main
begin

section \<open>oxphobia: the dependency resolution engine\<close>

text \<open>
  The repository holds two versions of the command-line program: \<^verbatim>\<open>src/cli.js\<close> (parser
  acorn, minifier terser, remote packages only) and the later one with local-project support
  (parser oxc). The functions below take the version as a parameter and branch on it exactly
  where the two sources differ.
\<close>

datatype variant = Acorn | Oxc

subsection \<open>JavaScript values\<close>

text \<open>
  Syntax trees and package manifests are plain JavaScript values. An object is the
  association list of its own properties (the first binding of a key is the one read).
  Numbers are only ever tested for truthiness by the program, so integers stand for them.
\<close>

datatype jsval =
    JUndef
  | JNull
  | JBool bool
  | JNum int
  | JStr string
  | JArr "jsval list"
  | JObj "(string \<times> jsval) list"

datatype error =
    TypeError
  | FetchFailed string
  | LocalNotFound string
  | BodyUnreadable

fun truthy :: "jsval \<Rightarrow> bool" where
  "truthy JUndef = False"
| "truthy JNull = False"
| "truthy (JBool b) = b"
| "truthy (JNum n) = (n \<noteq> 0)"
| "truthy (JStr s) = (s \<noteq> [])"
| "truthy (JArr xs) = True"
| "truthy (JObj fs) = True"

text \<open>
  \<open>field x k\<close> is the property read \<^verbatim>\<open>x[k]\<close> for a value \<open>x\<close> that is neither null nor
  undefined, at the keys the program reads (none of them is a property of a primitive, of
  an array or of \<^verbatim>\<open>Object.prototype\<close>). Reading a property of null or undefined throws in
  JavaScript; every call site below is guarded as in the source, or returns the error.
\<close>

fun field :: "jsval \<Rightarrow> string \<Rightarrow> jsval" where
  "field (JObj fs) k = (case map_of fs k of Some x \<Rightarrow> x | None \<Rightarrow> JUndef)"
| "field x k = JUndef"

definition nullish :: "jsval \<Rightarrow> bool" where
  "nullish x = (x = JUndef \<or> x = JNull)"

subsection \<open>Syntax tree utilities\<close>

definition propName :: "jsval \<Rightarrow> jsval" where
  \<comment> \<open>\<^verbatim>\<open>node.property && (node.property.name || node.property.value)\<close>\<close>
  "propName node =
     (let p = field node ''property'' in
      if truthy p then (if truthy (field p ''name'') then field p ''name'' else field p ''value'')
      else p)"

definition isProcessEnvNodeEnv :: "jsval \<Rightarrow> bool" where
  "isProcessEnvNodeEnv node =
     (if \<not> truthy node then False
      else if field node ''type'' = JStr ''MemberExpression'' then
        (if propName node = JStr ''NODE_ENV'' then
           (let obj = field node ''object'' in
            if truthy obj \<and> field obj ''type'' = JStr ''MemberExpression'' then
              (if propName obj = JStr ''env'' then
                 (let root = field obj ''object'' in
                  if truthy root \<and> field root ''name'' = JStr ''process'' then True else False)
               else False)
            else False)
         else False)
      else False)"

definition stringLiteralType :: "variant \<Rightarrow> jsval \<Rightarrow> bool" where
  "stringLiteralType v t =
     (case v of Acorn \<Rightarrow> t = JStr ''Literal''
              | Oxc \<Rightarrow> t = JStr ''Literal'' \<or> t = JStr ''StringLiteral'')"

definition getString :: "variant \<Rightarrow> jsval \<Rightarrow> error + string option" where
  \<comment> \<open>the local helper of \<^verbatim>\<open>evaluateEnvCondition\<close>; it reads \<^verbatim>\<open>n.type\<close> unguarded\<close>
  "getString v n =
     (if nullish n then Inl TypeError
      else if stringLiteralType v (field n ''type'') then
        (case field n ''value'' of JStr s \<Rightarrow> Inr (Some s) | _ \<Rightarrow> Inr None)
      else Inr None)"

definition evaluateEnvCondition :: "variant \<Rightarrow> jsval \<Rightarrow> error + bool option" where
  "evaluateEnvCondition v node =
     (if \<not> truthy node \<or> field node ''type'' \<noteq> JStr ''BinaryExpression'' then Inr None
      else
        (case (if isProcessEnvNodeEnv (field node ''left'')
               then (case getString v (field node ''right'') of
                       Inl e \<Rightarrow> Inl e | Inr s \<Rightarrow> Inr (True, s))
               else if isProcessEnvNodeEnv (field node ''right'')
               then (case getString v (field node ''left'') of
                       Inl e \<Rightarrow> Inl e | Inr s \<Rightarrow> Inr (True, s))
               else Inr (False, None)) of
           Inl e \<Rightarrow> Inl e
         | Inr (envSide, strSide) \<Rightarrow>
             (case strSide of
                None \<Rightarrow> Inr None
              | Some s \<Rightarrow>
                  if envSide then
                    (if field node ''operator'' = JStr ''==='' \<or> field node ''operator'' = JStr ''==''
                     then Inr (Some (s = ''production''))
                     else if field node ''operator'' = JStr ''!=='' \<or> field node ''operator'' = JStr ''!=''
                     then Inr (Some (s \<noteq> ''production''))
                     else Inr None)
                  else Inr None)))"

definition extractString :: "variant \<Rightarrow> jsval \<Rightarrow> string option" where
  \<comment> \<open>the local helper of \<^verbatim>\<open>findDependencies\<close>; \<^verbatim>\<open>null\<close> is \<open>None\<close>\<close>
  "extractString v n =
     (if \<not> truthy n then None
      else if stringLiteralType v (field n ''type'') then
        (case field n ''value'' of JStr s \<Rightarrow> Some s | _ \<Rightarrow> None)
      else None)"

definition setAdd :: "'a \<Rightarrow> 'a list \<Rightarrow> 'a list" where
  \<comment> \<open>\<^verbatim>\<open>set.add(x)\<close> on a JavaScript Set, which iterates in insertion order: the Set is the
      list of its elements in that order\<close>
  "setAdd x xs = (if x \<in> set xs then xs else xs @ [x])"

definition add_if_val :: "string option \<Rightarrow> string list \<Rightarrow> string list" where
  \<comment> \<open>\<^verbatim>\<open>if (val) deps.add(val)\<close>: null and the empty string are falsy\<close>
  "add_if_val val deps =
     (case val of None \<Rightarrow> deps | Some s \<Rightarrow> if s = [] then deps else setAdd s deps)"

definition firstArgument :: "jsval \<Rightarrow> jsval option" where
  \<comment> \<open>\<^verbatim>\<open>node.arguments && node.arguments.length > 0\<close>, then \<^verbatim>\<open>node.arguments[0]\<close>. In a
      tree made by the parser \<^verbatim>\<open>arguments\<close> is an array; a string has a length and an index
      too; array-like objects do not occur and are not modelled.\<close>
  "firstArgument node =
     (case field node ''arguments'' of
        JArr (a # as) \<Rightarrow> Some a
      | JStr (c # cs) \<Rightarrow> Some (JStr [c])
      | _ \<Rightarrow> None)"

definition extractDeps :: "variant \<Rightarrow> jsval \<Rightarrow> string list \<Rightarrow> string list" where
  \<comment> \<open>the three extraction blocks of \<^verbatim>\<open>findDependencies\<close>, in order\<close>
  "extractDeps v node deps =
     (let deps1 =
            (if field node ''type'' \<in> {JStr ''ImportDeclaration'', JStr ''ExportNamedDeclaration'',
                                      JStr ''ExportAllDeclaration''}
             then (if truthy (field node ''source'')
                   then add_if_val (extractString v (field node ''source'')) deps else deps)
             else deps);
          deps2 =
            (if field node ''type'' = JStr ''ImportExpression''
             then add_if_val (extractString v (field node ''source'')) deps1 else deps1)
      in
        if field node ''type'' = JStr ''CallExpression'' then
          (let callee = field node ''callee'';
               isRequire = (truthy callee \<and> field callee ''type'' = JStr ''Identifier''
                            \<and> field callee ''name'' = JStr ''require'')
           in if isRequire then
                (case firstArgument node of
                   Some a \<Rightarrow> add_if_val (extractString v a) deps2
                 | None \<Rightarrow> deps2)
              else deps2)
        else deps2)"

definition keysToVisit :: "variant \<Rightarrow> string list" where
  "keysToVisit v =
     (case v of
        Acorn \<Rightarrow>
          [''body'', ''declarations'', ''init'', ''expression'', ''callee'', ''arguments'',
           ''consequent'', ''alternate'', ''test'', ''left'', ''right'', ''source'', ''specifiers'',
           ''exported'', ''local'', ''imported'', ''program'',
           ''elements'', ''properties'', ''value'', ''block'', ''handler'', ''finalizer'']
      | Oxc \<Rightarrow>
          [''body'', ''declarations'', ''init'', ''expression'', ''callee'', ''arguments'',
           ''consequent'', ''alternate'', ''test'', ''left'', ''right'', ''source'', ''specifiers'',
           ''exported'', ''local'', ''imported'', ''program'', ''statements'',
           ''elements'', ''properties'', ''value'', ''block'', ''handler'', ''finalizer''])"

datatype pruning = Descend string | NotPruned

definition pruneBranch :: "variant \<Rightarrow> jsval \<Rightarrow> error + pruning" where
  \<comment> \<open>The two pruning blocks at the head of \<^verbatim>\<open>findDependencies\<close>: \<open>Descend k\<close> when the
      traversal continues into \<^verbatim>\<open>node[k]\<close> alone and returns, \<open>NotPruned\<close> when control
      falls through to the extraction. (The \<^verbatim>\<open>if (node.alternate)\<close> guard of the first block
      skips a call that would return at once.)\<close>
  "pruneBranch v node =
     (if field node ''type'' = JStr ''IfStatement'' then
        (case evaluateEnvCondition v (field node ''test'') of
           Inl e \<Rightarrow> Inl e
         | Inr (Some True) \<Rightarrow> Inr (Descend ''consequent'')
         | Inr (Some False) \<Rightarrow> Inr (Descend ''alternate'')
         | Inr None \<Rightarrow> Inr NotPruned)
      else if field node ''type'' = JStr ''ConditionalExpression'' then
        (case evaluateEnvCondition v (field node ''test'') of
           Inl e \<Rightarrow> Inl e
         | Inr (Some True) \<Rightarrow> Inr (Descend ''consequent'')
         | Inr (Some False) \<Rightarrow> Inr (Descend ''alternate'')
         | Inr None \<Rightarrow> Inr NotPruned)
      else Inr NotPruned)"

lemma size_map_of: "map_of fs k = Some x \<Longrightarrow> size x < Suc (size_list (size_prod (\<lambda>_. 0) size) fs)"
  by (induction fs) (auto split: if_splits)

lemma size_field: "size (field (JObj fs) k) < Suc (size_list (size_prod (\<lambda>_. 0) size) fs)"
  by (auto split: option.splits dest: size_map_of)

function findDependencies :: "variant \<Rightarrow> jsval \<Rightarrow> string list \<Rightarrow> error + string list"
  and findDependencies_each :: "variant \<Rightarrow> jsval list \<Rightarrow> string list \<Rightarrow> error + string list"
  and findDependencies_keys ::
        "variant \<Rightarrow> string list \<Rightarrow> (string \<times> jsval) list \<Rightarrow> string list \<Rightarrow> error + string list"
where
  "findDependencies v (JArr xs) deps = findDependencies_each v xs deps"
| "findDependencies v (JObj fs) deps =
     (case pruneBranch v (JObj fs) of
        Inl e \<Rightarrow> Inl e
      | Inr (Descend k) \<Rightarrow> findDependencies v (field (JObj fs) k) deps
      | Inr NotPruned \<Rightarrow>
          findDependencies_keys v (keysToVisit v) fs (extractDeps v (JObj fs) deps))"
| "findDependencies v JUndef deps = Inr deps"
| "findDependencies v JNull deps = Inr deps"
| "findDependencies v (JBool b) deps = Inr deps"
| "findDependencies v (JNum n) deps = Inr deps"
| "findDependencies v (JStr s) deps = Inr deps"
| "findDependencies_each v [] deps = Inr deps"
| "findDependencies_each v (x # xs) deps =
     (case findDependencies v x deps of
        Inl e \<Rightarrow> Inl e
      | Inr deps' \<Rightarrow> findDependencies_each v xs deps')"
| "findDependencies_keys v [] fs deps = Inr deps"
| "findDependencies_keys v (k # ks) fs deps =
     (if truthy (field (JObj fs) k) then
        (case findDependencies v (field (JObj fs) k) deps of
           Inl e \<Rightarrow> Inl e
         | Inr deps' \<Rightarrow> findDependencies_keys v ks fs deps')
      else findDependencies_keys v ks fs deps)"
  by pat_completeness auto
termination
  by (relation "inv_image (less_than <*lex*> less_than)
        (\<lambda>x. case x of
               Inl (v, n, d) \<Rightarrow> (size n, Suc (length (keysToVisit v)))
             | Inr (Inl (v, ns, d)) \<Rightarrow> (size_list size ns, 0)
             | Inr (Inr (v, ks, fs, d)) \<Rightarrow> (size (JObj fs), length ks))")
     (auto simp: size_field simp del: field.simps)

subsection \<open>Vocabulary of the specification for syntax trees\<close>

text \<open>
  The specification speaks of string literals and of calls of \<^verbatim>\<open>require\<close>. These predicates
  follow its words; the theorems compare them with what the code computes.
\<close>

definition isStringLiteral :: "variant \<Rightarrow> jsval \<Rightarrow> string \<Rightarrow> bool" where
  "isStringLiteral v n s = (stringLiteralType v (field n ''type'') \<and> field n ''value'' = JStr s)"

definition isRequireCallee :: "jsval \<Rightarrow> bool" where
  "isRequireCallee c = (field c ''type'' = JStr ''Identifier'' \<and> field c ''name'' = JStr ''require'')"

definition notStringLiteral :: "variant \<Rightarrow> jsval \<Rightarrow> bool" where
  "notStringLiteral v n = (\<forall>s. \<not> isStringLiteral v n s)"

text \<open>
  A tree made by a parser gives every binary expression both operands. \<open>operandsPresent\<close>
  says so of every node of a tree; it is the one thing the traversal needs to raise nothing.
\<close>

lemma size_elem: "x \<in> set xs \<Longrightarrow> size x < Suc (size_list size xs)"
  by (induction xs) auto

lemma size_snd: "p \<in> set fs \<Longrightarrow> size (snd p) < Suc (size_list (size_prod (\<lambda>_. 0) size) fs)"
proof (induction fs)
  case Nil
  then show ?case by simp
next
  case (Cons q fs)
  show ?case
  proof (cases "p = q")
    case True
    then show ?thesis by (cases q) simp
  next
    case False
    with Cons have "size (snd p) < Suc (size_list (size_prod (\<lambda>_. 0) size) fs)" by simp
    then show ?thesis by simp
  qed
qed

function operandsPresent :: "jsval \<Rightarrow> bool" where
  "operandsPresent (JArr xs) = (\<forall>x\<in>set xs. operandsPresent x)"
| "operandsPresent (JObj fs) =
     ((field (JObj fs) ''type'' = JStr ''BinaryExpression'' \<longrightarrow>
         \<not> nullish (field (JObj fs) ''left'') \<and> \<not> nullish (field (JObj fs) ''right'')) \<and>
      (\<forall>p\<in>set fs. operandsPresent (snd p)))"
| "operandsPresent JUndef = True"
| "operandsPresent JNull = True"
| "operandsPresent (JBool b) = True"
| "operandsPresent (JNum n) = True"
| "operandsPresent (JStr s) = True"
  by pat_completeness auto
termination
  by (relation "measure size") (auto dest: size_elem size_snd)

text \<open>
  \<open>acc_rel d x y\<close> relates the outcome \<open>x\<close> of a traversal started with the set \<open>d\<close> to
  the outcome \<open>y\<close> of the same traversal started with the empty set.
\<close>

definition acc_rel :: "string list \<Rightarrow> error + string list \<Rightarrow> error + string list \<Rightarrow> bool" where
  "acc_rel d x y = (case (x, y) of
      (Inl e, Inl e') \<Rightarrow> e = e'
    | (Inr r, Inr r0) \<Rightarrow> set r = set d \<union> set r0
    | _ \<Rightarrow> False)"

text \<open>Constructors of the ESTree nodes used in the examples.\<close>

definition mkLiteral :: "string \<Rightarrow> jsval" where
  "mkLiteral s = JObj [(''type'', JStr ''Literal''), (''value'', JStr s)]"

definition mkIdentifier :: "string \<Rightarrow> jsval" where
  "mkIdentifier s = JObj [(''type'', JStr ''Identifier''), (''name'', JStr s)]"

definition mkMember :: "jsval \<Rightarrow> string \<Rightarrow> jsval" where
  "mkMember obj p = JObj [(''type'', JStr ''MemberExpression''), (''object'', obj),
                          (''property'', mkIdentifier p), (''computed'', JBool False)]"

definition mkComputed :: "jsval \<Rightarrow> jsval \<Rightarrow> jsval" where
  \<comment> \<open>the computed member expression \<^verbatim>\<open>obj[p]\<close>\<close>
  "mkComputed obj p = JObj [(''type'', JStr ''MemberExpression''), (''object'', obj),
                            (''property'', p), (''computed'', JBool True)]"

definition envLookup :: "string \<Rightarrow> jsval" where
  \<comment> \<open>\<^verbatim>\<open>process.env[key]\<close>, the variable \<^verbatim>\<open>key\<close> naming the property to read\<close>
  "envLookup key = mkComputed (mkMember (mkIdentifier ''process'') ''env'') (mkIdentifier key)"

definition mkBinary :: "string \<Rightarrow> jsval \<Rightarrow> jsval \<Rightarrow> jsval" where
  "mkBinary opr l r = JObj [(''type'', JStr ''BinaryExpression''), (''left'', l),
                            (''operator'', JStr opr), (''right'', r)]"

definition mkCall :: "jsval \<Rightarrow> jsval list \<Rightarrow> jsval" where
  "mkCall f args = JObj [(''type'', JStr ''CallExpression''), (''callee'', f), (''arguments'', JArr args)]"

definition mkRequire :: "string \<Rightarrow> jsval" where
  "mkRequire s = mkCall (mkIdentifier ''require'') [mkLiteral s]"

definition mkExprStmt :: "jsval \<Rightarrow> jsval" where
  "mkExprStmt e = JObj [(''type'', JStr ''ExpressionStatement''), (''expression'', e)]"

definition mkBlock :: "jsval list \<Rightarrow> jsval" where
  "mkBlock xs = JObj [(''type'', JStr ''BlockStatement''), (''body'', JArr xs)]"

definition mkIf :: "jsval \<Rightarrow> jsval \<Rightarrow> jsval \<Rightarrow> jsval" where
  "mkIf t c a = JObj [(''type'', JStr ''IfStatement''), (''test'', t), (''consequent'', c),
                      (''alternate'', a)]"

definition mkConditional :: "jsval \<Rightarrow> jsval \<Rightarrow> jsval \<Rightarrow> jsval" where
  "mkConditional t c a = JObj [(''type'', JStr ''ConditionalExpression''), (''test'', t),
                               (''consequent'', c), (''alternate'', a)]"

definition nodeEnv :: jsval where
  "nodeEnv = mkMember (mkMember (mkIdentifier ''process'') ''env'') ''NODE_ENV''"

definition mkProgram :: "jsval list \<Rightarrow> jsval" where
  "mkProgram xs = JObj [(''type'', JStr ''Program''), (''body'', JArr xs), (''sourceType'', JStr ''module'')]"

subsection \<open>External collaborators\<close>

text \<open>
  The network, the file system, the URL and path libraries, the parsers and the minifier are
  not part of the program. A run is modelled against a fixed \<open>world\<close> that answers for them.
  \<open>net w u\<close> is the response of \<^verbatim>\<open>fetch(u)\<close> when it resolves with \<^verbatim>\<open>ok\<close>, and \<open>None\<close>
  when it rejects or is not \<^verbatim>\<open>ok\<close> (the program treats both alike everywhere).
\<close>

record response =
  rbody :: "string option"   \<comment> \<open>\<^verbatim>\<open>res.text()\<close>; \<open>None\<close> when reading the body rejects\<close>
  rjson :: "jsval option"    \<comment> \<open>\<^verbatim>\<open>res.json()\<close>; \<open>None\<close> when it rejects\<close>
  rurl :: string             \<comment> \<open>\<^verbatim>\<open>res.url\<close>, the location after redirects\<close>

record world =
  net :: "string \<Rightarrow> response option"
  urlJoin :: "string \<Rightarrow> string \<Rightarrow> string option"
    \<comment> \<open>\<^verbatim>\<open>new URL(rel, base).href\<close>; \<open>None\<close> when the constructor throws\<close>
  pathResolve :: "string \<Rightarrow> string \<Rightarrow> string"
    \<comment> \<open>\<open>pathResolve base rel\<close> is \<^verbatim>\<open>path.resolve(path.dirname(base), rel)\<close>\<close>
  isFile :: "string \<Rightarrow> bool"
    \<comment> \<open>\<^verbatim>\<open>fs.existsSync(p) && fs.statSync(p).isFile()\<close>\<close>
  readFile :: "string \<Rightarrow> string option"
    \<comment> \<open>\<^verbatim>\<open>fs.readFileSync(p, 'utf-8')\<close>; \<open>None\<close> when it throws\<close>
  parseModule :: "string \<Rightarrow> jsval option"
    \<comment> \<open>\<^verbatim>\<open>acorn.parse(code, {sourceType: 'module'})\<close>; \<open>None\<close> when it throws\<close>
  parseScript :: "string \<Rightarrow> jsval option"
    \<comment> \<open>\<^verbatim>\<open>acorn.parse(code, {sourceType: 'script'})\<close>\<close>
  parseSync :: "string \<Rightarrow> string \<Rightarrow> jsval option"
    \<comment> \<open>\<^verbatim>\<open>parseSync(finalUrl, code, ...).program\<close> of oxc; \<open>None\<close> when the call or the
        read of \<^verbatim>\<open>ret.errors.length\<close> throws. Syntax errors do not make it throw: oxc lists
        them in \<^verbatim>\<open>ret.errors\<close>, of which the code reads the length and nothing else\<close>
  minify :: "string \<Rightarrow> string option"
    \<comment> \<open>the minifier's \<^verbatim>\<open>code\<close>; \<open>None\<close> when it throws\<close>
  byteLength :: "string \<Rightarrow> nat"
  gzipLength :: "string \<Rightarrow> nat option"
    \<comment> \<open>\<^verbatim>\<open>gzipSync(Buffer.from(s)).length\<close>; \<open>None\<close> when it throws\<close>

subsection \<open>Strings\<close>

definition startsWith :: "string \<Rightarrow> string \<Rightarrow> bool" where
  "startsWith s p = (take (length p) s = p)"

definition endsWith :: "string \<Rightarrow> string \<Rightarrow> bool" where
  "endsWith s p = (length p \<le> length s \<and> drop (length s - length p) s = p)"

fun splitOn :: "char \<Rightarrow> string \<Rightarrow> string list" where
  \<comment> \<open>\<^verbatim>\<open>s.split(c)\<close>: never empty\<close>
  "splitOn c [] = [[]]"
| "splitOn c (x # xs) =
     (if x = c then [] # splitOn c xs
      else (case splitOn c xs of p # ps \<Rightarrow> (x # p) # ps | [] \<Rightarrow> [[x]]))"

fun joinWith :: "string \<Rightarrow> string list \<Rightarrow> string" where
  \<comment> \<open>\<^verbatim>\<open>parts.join(sep)\<close>\<close>
  "joinWith sep [] = []"
| "joinWith sep [p] = p"
| "joinWith sep (p # q # ps) = p @ sep @ joinWith sep (q # ps)"

function digits :: "nat \<Rightarrow> string" where
  "digits n = (if n < 10 then [char_of (48 + n)] else digits (n div 10) @ [char_of (48 + n mod 10)])"
  by pat_completeness auto
termination
  by (relation "measure id") auto

fun toStr :: "jsval \<Rightarrow> string"
  and toStr_elems :: "jsval list \<Rightarrow> string"
where
  \<comment> \<open>the conversion inside a template literal\<close>
  "toStr JUndef = ''undefined''"
| "toStr JNull = ''null''"
| "toStr (JBool b) = (if b then ''true'' else ''false'')"
| "toStr (JNum n) = (if n < 0 then ''-'' @ digits (nat (- n)) else digits (nat n))"
| "toStr (JStr s) = s"
| "toStr (JArr xs) = toStr_elems xs"
| "toStr (JObj fs) = ''[object Object]''"
| "toStr_elems [] = []"
| "toStr_elems [x] = (if nullish x then [] else toStr x)"
| "toStr_elems (x # y # ys) = (if nullish x then [] else toStr x) @ '','' @ toStr_elems (y # ys)"

subsection \<open>Package resolution\<close>

definition JSDELIVR_BASE :: string where
  "JSDELIVR_BASE = ''https://cdn.jsdelivr.net/npm/''"

definition NODE_BUILTINS :: "variant \<Rightarrow> string list" where
  "NODE_BUILTINS v =
     (case v of
        Acorn \<Rightarrow>
          [''fs'', ''path'', ''os'', ''crypto'', ''stream'', ''http'', ''https'', ''zlib'', ''url'',
           ''util'', ''buffer'', ''events'', ''assert'', ''child_process'', ''process'', ''net'',
           ''tls'', ''dgram'', ''dns'', ''perf_hooks'', ''worker_threads'']
      | Oxc \<Rightarrow>
          [''fs'', ''path'', ''os'', ''crypto'', ''stream'', ''http'', ''https'', ''zlib'', ''url'',
           ''util'', ''buffer'', ''events'', ''assert'', ''child_process'', ''process'', ''net'',
           ''tls'', ''dgram'', ''dns'', ''perf_hooks'', ''worker_threads'',
           ''node:fs'', ''node:path'', ''node:process''])"

definition parseBareSpecifier :: "string \<Rightarrow> string \<times> string" where
  \<comment> \<open>the pair \<^verbatim>\<open>{ pkgName, subpath }\<close>\<close>
  "parseBareSpecifier specifier =
     (let parts = splitOn CHR ''/'' specifier;
          part0 = (case parts of [] \<Rightarrow> [] | p # _ \<Rightarrow> p);
          part1 = (case drop 1 parts of [] \<Rightarrow> [] | p # _ \<Rightarrow> p)
      in if startsWith specifier ''@'' then (part0 @ ''/'' @ part1, joinWith ''/'' (drop 2 parts))
         else (part0, joinWith ''/'' (drop 1 parts)))"

definition conditions :: "string list" where
  "conditions = [''production'', ''node'', ''require'', ''default'', ''import'', ''browser'']"

fun firstCondition :: "string list \<Rightarrow> (string \<times> jsval) list \<Rightarrow> jsval option" where
  \<comment> \<open>the loop of \<^verbatim>\<open>resolveExports\<close>: the value at the first condition that is a key of \<open>exp\<close>\<close>
  "firstCondition [] fs = None"
| "firstCondition (c # cs) fs =
     (case map_of fs c of Some x \<Rightarrow> Some x | None \<Rightarrow> firstCondition cs fs)"

lemma size_firstCondition:
  "firstCondition cs fs = Some x \<Longrightarrow> size x < Suc (size_list (size_prod (\<lambda>_. 0) size) fs)"
  by (induction cs) (auto split: option.splits dest: size_map_of)

function resolveExports :: "jsval \<Rightarrow> string option" where
  "resolveExports (JStr s) = Some s"
| "resolveExports (JObj fs) =
     (case firstCondition conditions fs of
        Some x \<Rightarrow> resolveExports x
      | None \<Rightarrow> None)"
| "resolveExports (JArr xs) = None"
| "resolveExports JUndef = None"
| "resolveExports JNull = None"
| "resolveExports (JBool b) = None"
| "resolveExports (JNum n) = None"
  by pat_completeness auto
termination
  by (relation "measure size") (auto dest: size_firstCondition)

definition orElse :: "jsval \<Rightarrow> jsval \<Rightarrow> jsval" where
  \<comment> \<open>\<^verbatim>\<open>a || b\<close>\<close>
  "orElse a b = (if truthy a then a else b)"

definition pushIf :: "jsval \<Rightarrow> jsval list \<Rightarrow> jsval list" where
  \<comment> \<open>\<^verbatim>\<open>if (x) entries.push(x)\<close>\<close>
  "pushIf x entries = (if truthy x then entries @ [x] else entries)"

definition strOrNull :: "string option \<Rightarrow> jsval" where
  "strOrNull r = (case r of Some s \<Rightarrow> JStr s | None \<Rightarrow> JNull)"

definition packageEntries :: "jsval \<Rightarrow> string \<Rightarrow> jsval list" where
  \<comment> \<open>the array \<^verbatim>\<open>entries\<close> of \<^verbatim>\<open>resolvePackageUrl\<close>, for a manifest that is not null\<close>
  "packageEntries pkgObj subpath =
     (if subpath \<noteq> [] then
        (let exportKey = ''./'' @ subpath;
             entries =
               (if truthy (field pkgObj ''exports'') then
                  (let target = orElse (field (field pkgObj ''exports'') exportKey)
                                       (field (field pkgObj ''exports'') (exportKey @ ''.js''))
                   in if truthy target then pushIf (strOrNull (resolveExports target)) [] else [])
                else [])
         in entries @ [JStr subpath])
      else
        (let entries1 =
               (if truthy (field pkgObj ''exports'') then
                  pushIf (strOrNull (resolveExports
                            (orElse (field (field pkgObj ''exports'') ''.'') (field pkgObj ''exports'')))) []
                else []);
             entries2 = pushIf (field pkgObj ''main'') entries1;
             entries3 = pushIf (field pkgObj ''module'') entries2
         in entries3 @ [JStr ''index.js'']))"

definition newSet :: "'a list \<Rightarrow> 'a list" where
  \<comment> \<open>\<^verbatim>\<open>Array.from(new Set(xs))\<close>: the first occurrences, in order\<close>
  "newSet xs = fold setAdd xs []"

definition stripDotSlash :: "string \<Rightarrow> string" where
  \<comment> \<open>\<^verbatim>\<open>if (entry.startsWith("./")) entry = entry.slice(2)\<close>\<close>
  "stripDotSlash entry = (if startsWith entry ''./'' then drop 2 entry else entry)"

fun entryUrls :: "world \<Rightarrow> string \<Rightarrow> jsval list \<Rightarrow> error + string list" where
  \<comment> \<open>the \<^verbatim>\<open>map\<close> callback over the entries; \<^verbatim>\<open>entry.startsWith\<close> throws on an entry
      that is not a string\<close>
  "entryUrls w pkgBase [] = Inr []"
| "entryUrls w pkgBase (JStr entry # es) =
     (case urlJoin w (stripDotSlash entry) pkgBase of
        None \<Rightarrow> Inl TypeError
      | Some href \<Rightarrow>
          (case entryUrls w pkgBase es of
             Inl e \<Rightarrow> Inl e
           | Inr hrefs \<Rightarrow> Inr (href # hrefs)))"
| "entryUrls w pkgBase (x # es) = Inl TypeError"

definition manifestUrl :: "string \<Rightarrow> string" where
  "manifestUrl specifier = JSDELIVR_BASE @ fst (parseBareSpecifier specifier) @ ''/package.json''"

definition fetchedManifest :: "string \<Rightarrow> response option \<Rightarrow> jsval \<times> string" where
  \<comment> \<open>\<^verbatim>\<open>pkgObj\<close> and \<^verbatim>\<open>pkgBase\<close> after the \<^verbatim>\<open>try\<close> block of \<^verbatim>\<open>resolvePackageUrl\<close>. A manifest
      that is \<^verbatim>\<open>null\<close> is assigned before the read of \<^verbatim>\<open>pkgObj.name\<close> throws into the empty
      \<^verbatim>\<open>catch\<close>.\<close>
  "fetchedManifest specifier res =
     (let pkgName = fst (parseBareSpecifier specifier);
          unfetched = (JObj [], JSDELIVR_BASE @ pkgName @ ''/'')
      in case res of
           None \<Rightarrow> unfetched
         | Some r \<Rightarrow>
             (case rjson r of
                None \<Rightarrow> unfetched
              | Some pkgObj \<Rightarrow>
                  if nullish pkgObj then (pkgObj, JSDELIVR_BASE @ pkgName @ ''/'')
                  else (pkgObj, JSDELIVR_BASE @ toStr (field pkgObj ''name'') @ ''@''
                                @ toStr (field pkgObj ''version'') @ ''/'')))"

definition packageUrls :: "world \<Rightarrow> string \<Rightarrow> response option \<Rightarrow> error + string list" where
  \<comment> \<open>\<^verbatim>\<open>targetUrls\<close>: the part of \<^verbatim>\<open>resolvePackageUrl\<close> between the response of the manifest
      fetch and the write to the cache\<close>
  "packageUrls w specifier res =
     (let (pkgObj, pkgBase) = fetchedManifest specifier res;
          subpath = snd (parseBareSpecifier specifier)
      in if nullish pkgObj then Inl TypeError
         else entryUrls w pkgBase (newSet (filter truthy (packageEntries pkgObj subpath))))"

record resolver =
  pkgResolveCache :: "string \<rightharpoonup> string list"
  requests :: "string list"   \<comment> \<open>every \<^verbatim>\<open>fetch(u)\<close> issued so far, in order\<close>

definition resolvePackageUrl_begin ::
  "string \<Rightarrow> 'a resolver_scheme \<Rightarrow> (string list option) \<times> 'a resolver_scheme" where
  \<comment> \<open>up to the first suspension: a cached result, or the manifest fetch is issued\<close>
  "resolvePackageUrl_begin specifier st =
     (case pkgResolveCache st specifier of
        Some urls \<Rightarrow> (Some urls, st)
      | None \<Rightarrow> (None, st\<lparr>requests := requests st @ [manifestUrl specifier]\<rparr>))"

definition resolvePackageUrl_end ::
  "world \<Rightarrow> string \<Rightarrow> 'a resolver_scheme \<Rightarrow> (error + string list) \<times> 'a resolver_scheme" where
  \<comment> \<open>from the response of the manifest fetch to the return\<close>
  "resolvePackageUrl_end w specifier st =
     (case packageUrls w specifier (net w (manifestUrl specifier)) of
        Inl e \<Rightarrow> (Inl e, st)
      | Inr targetUrls \<Rightarrow>
          (Inr targetUrls,
           st\<lparr>pkgResolveCache := (pkgResolveCache st)(specifier \<mapsto> targetUrls)\<rparr>))"

definition resolvePackageUrl ::
  "world \<Rightarrow> string \<Rightarrow> 'a resolver_scheme \<Rightarrow> (error + string list) \<times> 'a resolver_scheme" where
  \<comment> \<open>a call run to its end with nothing interleaved\<close>
  "resolvePackageUrl w specifier st =
     (case resolvePackageUrl_begin specifier st of
        (Some urls, st') \<Rightarrow> (Inr urls, st')
      | (None, st') \<Rightarrow> resolvePackageUrl_end w specifier st')"

subsection \<open>Specifier resolution\<close>

definition isLocalFile :: "string \<Rightarrow> bool" where
  "isLocalFile url = (\<not> startsWith url ''http'')"

definition isBuiltin :: "variant \<Rightarrow> string \<Rightarrow> bool" where
  \<comment> \<open>\<^verbatim>\<open>NODE_BUILTINS.has(url) || url.startsWith('node:')\<close>\<close>
  "isBuiltin v url = (url \<in> set (NODE_BUILTINS v) \<or> startsWith url ''node:'')"

definition truthyBase :: "string option \<Rightarrow> string option" where
  \<comment> \<open>\<^verbatim>\<open>!baseUrl\<close> holds for \<^verbatim>\<open>null\<close> and for the empty string: \<open>None\<close>; otherwise the base\<close>
  "truthyBase baseUrl = (case baseUrl of None \<Rightarrow> None | Some b \<Rightarrow> if b = [] then None else Some b)"

datatype resolving =
    Settled "error + string list option"   \<comment> \<open>\<^verbatim>\<open>resolveUrl\<close> returned (\<open>None\<close> is \<^verbatim>\<open>null\<close>) or threw\<close>
  | Package string                          \<comment> \<open>suspended in \<^verbatim>\<open>resolvePackageUrl\<close> on the manifest\<close>

definition joinUrl :: "world \<Rightarrow> string \<Rightarrow> string \<Rightarrow> error + string list option" where
  \<comment> \<open>\<^verbatim>\<open>return [new URL(url, baseUrl).href]\<close>\<close>
  "joinUrl w url base =
     (case urlJoin w url base of None \<Rightarrow> Inl TypeError | Some href \<Rightarrow> Inr (Some [href]))"

definition resolveUrl_begin ::
  "world \<Rightarrow> variant \<Rightarrow> string \<Rightarrow> string option \<Rightarrow> 'a resolver_scheme
     \<Rightarrow> resolving \<times> 'a resolver_scheme" where
  \<comment> \<open>\<^verbatim>\<open>resolveUrl\<close> up to its first suspension. The two versions test for an absolute URL
      and for a builtin in opposite orders.\<close>
  "resolveUrl_begin w v url baseUrl st =
     (case v of
        Acorn \<Rightarrow>
          if startsWith url ''http'' then (Settled (Inr (Some [url])), st)
          else if isBuiltin Acorn url then (Settled (Inr None), st)
          else if startsWith url ''.'' \<or> startsWith url ''/'' then
            (case truthyBase baseUrl of
               None \<Rightarrow> (Settled (Inr (Some [url])), st)
             | Some base \<Rightarrow> (Settled (joinUrl w url base), st))
          else (case resolvePackageUrl_begin url st of
                  (Some urls, st') \<Rightarrow> (Settled (Inr (Some urls)), st')
                | (None, st') \<Rightarrow> (Package url, st'))
      | Oxc \<Rightarrow>
          if isBuiltin Oxc url then (Settled (Inr None), st)
          else if startsWith url ''http'' then (Settled (Inr (Some [url])), st)
          else if startsWith url ''.'' \<or> startsWith url ''/'' then
            (case truthyBase baseUrl of
               None \<Rightarrow> (Settled (Inr (Some [url])), st)
             | Some base \<Rightarrow>
                 if isLocalFile base then (Settled (Inr (Some [pathResolve w base url])), st)
                 else (Settled (joinUrl w url base), st))
          else (case resolvePackageUrl_begin url st of
                  (Some urls, st') \<Rightarrow> (Settled (Inr (Some urls)), st')
                | (None, st') \<Rightarrow> (Package url, st')))"

definition resolveUrl_end ::
  "world \<Rightarrow> string \<Rightarrow> 'a resolver_scheme \<Rightarrow> (error + string list option) \<times> 'a resolver_scheme" where
  \<comment> \<open>\<^verbatim>\<open>return await resolvePackageUrl(url)\<close>, once the manifest has answered\<close>
  "resolveUrl_end w url st =
     (case resolvePackageUrl_end w url st of
        (Inl e, st') \<Rightarrow> (Inl e, st')
      | (Inr urls, st') \<Rightarrow> (Inr (Some urls), st'))"

definition resolveUrl ::
  "world \<Rightarrow> variant \<Rightarrow> string \<Rightarrow> string option \<Rightarrow> 'a resolver_scheme
     \<Rightarrow> (error + string list option) \<times> 'a resolver_scheme" where
  \<comment> \<open>a call run to its end with nothing interleaved\<close>
  "resolveUrl w v url baseUrl st =
     (case resolveUrl_begin w v url baseUrl st of
        (Settled r, st') \<Rightarrow> (r, st')
      | (Package specifier, st') \<Rightarrow> resolveUrl_end w specifier st')"

subsection \<open>The fetcher\<close>

record fetched =
  code :: string
  finalUrl :: string
  isLocal :: bool

definition looksLikeSource :: "string \<Rightarrow> bool" where
  \<comment> \<open>\<^verbatim>\<open>url.match(/\.(js|mjs|cjs|ts)$/)\<close>\<close>
  "looksLikeSource url =
     (endsWith url ''.js'' \<or> endsWith url ''.mjs'' \<or> endsWith url ''.cjs'' \<or> endsWith url ''.ts'')"

text \<open>
  \<open>tryFetch\<close> returns the response and the requests issued so far; the \<^verbatim>\<open>||\<close> chain of the
  retry stops at the first response.
\<close>

definition tryFetch :: "world \<Rightarrow> string \<Rightarrow> string list \<Rightarrow> response option \<times> string list" where
  "tryFetch w u reqs = (net w u, reqs @ [u])"

definition retrySuffixes :: "world \<Rightarrow> string \<Rightarrow> string list \<Rightarrow> response option \<times> string list" where
  \<comment> \<open>\<^verbatim>\<open>await tryFetch(url + '.js') || await tryFetch(url + '.mjs') || await tryFetch(url + '/index.js')\<close>\<close>
  "retrySuffixes w url reqs =
     (case tryFetch w (url @ ''.js'') reqs of
        (Some r, reqs1) \<Rightarrow> (Some r, reqs1)
      | (None, reqs1) \<Rightarrow>
          (case tryFetch w (url @ ''.mjs'') reqs1 of
             (Some r, reqs2) \<Rightarrow> (Some r, reqs2)
           | (None, reqs2) \<Rightarrow> tryFetch w (url @ ''/index.js'') reqs2))"

definition attemptUrl :: "world \<Rightarrow> string \<Rightarrow> string list \<Rightarrow> response option \<times> string list" where
  \<comment> \<open>the first two statements of the loop body: the direct URL, then the retry\<close>
  "attemptUrl w url reqs =
     (case tryFetch w url reqs of
        (res, reqs1) \<Rightarrow>
          if res = None \<and> \<not> looksLikeSource url then retrySuffixes w url reqs1
          else (res, reqs1))"

definition deliver :: "response \<Rightarrow> error + fetched option" where
  \<comment> \<open>\<^verbatim>\<open>return { code: await res.text(), finalUrl: res.url, isLocal: false }\<close>\<close>
  "deliver r =
     (case rbody r of
        None \<Rightarrow> Inl BodyUnreadable
      | Some text \<Rightarrow> Inr (Some \<lparr>code = text, finalUrl = rurl r, isLocal = False\<rparr>))"

fun fetchRemote ::
  "world \<Rightarrow> string \<Rightarrow> string list \<Rightarrow> string list \<Rightarrow> (error + fetched option) \<times> string list" where
  \<comment> \<open>the \<^verbatim>\<open>for (const url of urls)\<close> loop and the final \<^verbatim>\<open>throw\<close>; the second argument is
      \<^verbatim>\<open>urls[0]\<close> as the message prints it\<close>
  "fetchRemote w first [] reqs = (Inl (FetchFailed first), reqs)"
| "fetchRemote w first (url # urls) reqs =
     (case attemptUrl w url reqs of
        (Some r, reqs2) \<Rightarrow> (deliver r, reqs2)
      | (None, reqs2) \<Rightarrow> fetchRemote w first urls reqs2)"

definition extensions :: "string list" where
  "extensions = ['''', ''.js'', ''.mjs'', ''.cjs'', ''.ts'', ''/index.js'']"

fun fetchLocal :: "world \<Rightarrow> string \<Rightarrow> string list \<Rightarrow> error + fetched option" where
  \<comment> \<open>the loop over \<^verbatim>\<open>extensions\<close>; a file that exists and cannot be read makes the function
      return \<^verbatim>\<open>null\<close>\<close>
  "fetchLocal w filePath [] = Inl (LocalNotFound filePath)"
| "fetchLocal w filePath (ext # exts) =
     (let tryPath = filePath @ ext in
      if isFile w tryPath then
        (case readFile w tryPath of
           Some text \<Rightarrow> Inr (Some \<lparr>code = text, finalUrl = tryPath, isLocal = True\<rparr>)
         | None \<Rightarrow> Inr None)
      else fetchLocal w filePath exts)"

definition urls0 :: "string list \<Rightarrow> string" where
  \<comment> \<open>\<^verbatim>\<open>urls[0]\<close> inside the message of the final \<^verbatim>\<open>throw\<close>\<close>
  "urls0 urls = (case urls of [] \<Rightarrow> ''undefined'' | u # _ \<Rightarrow> u)"

definition fetchFile ::
  "world \<Rightarrow> variant \<Rightarrow> string list \<Rightarrow> (error + fetched option) \<times> string list" where
  \<comment> \<open>The result, and the requests it issued. The later version reads \<^verbatim>\<open>urls[0]\<close> first and
      serves a local path from the file system, looking at that first candidate only.\<close>
  "fetchFile w v urls =
     (case v of
        Acorn \<Rightarrow> fetchRemote w (urls0 urls) urls []
      | Oxc \<Rightarrow>
          (case urls of
             [] \<Rightarrow> (Inl TypeError, [])
           | u # _ \<Rightarrow>
               if isLocalFile u then (fetchLocal w u extensions, [])
               else fetchRemote w (urls0 urls) urls []))"

subsection \<open>The orchestrator\<close>

text \<open>
  JavaScript runs one continuation at a time: between two \<^verbatim>\<open>await\<close>s a task runs alone, and
  at each \<^verbatim>\<open>await\<close> any other suspended task may run next. A task of \<^verbatim>\<open>enqueueFile\<close> is
  therefore a continuation suspended at one of its \<^verbatim>\<open>await\<close>s, and a run is a sequence of
  steps, each resuming one suspended task up to its next suspension or its end. Every order
  of resumption is allowed, which covers every order the event loop can produce.
\<close>

datatype logline =
    LogAnalyzing string
  | LogFetchFailed string           \<comment> \<open>\<^verbatim>\<open>Failed to fetch: ${url}\<close>\<close>
  | LogDownloaded string
  | LogReadLocal string
  | LogParseFailed string           \<comment> \<open>\<^verbatim>\<open>Parse failed for ...\<close>\<close>
  | LogDependencies "string list"
  | LogUnexpected string            \<comment> \<open>\<^verbatim>\<open>Unexpected Error (${url})\<close>\<close>
  | LogNoFiles
  | LogComplete
  | LogMinifyFailed
  | LogReport nat nat nat           \<comment> \<open>files count, minified bytes, gzipped bytes\<close>

datatype task =
    AwaitManifest string
      \<comment> \<open>inside \<^verbatim>\<open>resolveUrl\<close>, at the \<^verbatim>\<open>await fetch(url)\<close> of \<^verbatim>\<open>resolvePackageUrl\<close>\<close>
  | AwaitResolved string "error + string list option"
      \<comment> \<open>at \<^verbatim>\<open>await resolveUrl(url, baseUrl)\<close>, the promise settled with this outcome\<close>
  | AwaitFetch string string "string list"
      \<comment> \<open>at \<^verbatim>\<open>await fetchFile(targetUrls)\<close>, the fetch in flight: url, primaryUrl, targetUrls\<close>
  | AwaitFetched string string "error + fetched option"
      \<comment> \<open>at \<^verbatim>\<open>await fetchFile(targetUrls)\<close>, the promise settled with this outcome\<close>

text \<open>
  The module-level variables of the program, the console, and the pool of suspended tasks.
  Three fields only observe the run: \<open>completions\<close> counts the calls of the promise's
  \<^verbatim>\<open>resolve\<close>, \<open>bundledFrom\<close> records the canonical location of each bundle part and
  \<open>parsedLog\<close> the canonical location of each text handed to the parser.
\<close>

record state = resolver +
  parsedUrls :: "string list"
  bundleParts :: "string list"
  activeTasks :: int
  onQueueEmpty :: bool
  hasError :: bool
  console :: "logline list"
  tasks :: "task list"
  completions :: nat
  bundledFrom :: "string list"
  parsedLog :: "string list"

definition initial :: state where
  "initial = \<lparr>pkgResolveCache = Map.empty, requests = [], parsedUrls = [], bundleParts = [],
              activeTasks = 0, onQueueEmpty = False, hasError = False, console = [], tasks = [],
              completions = 0, bundledFrom = [], parsedLog = []\<rparr>"

definition enqueueFile_start :: "world \<Rightarrow> variant \<Rightarrow> string \<Rightarrow> string option \<Rightarrow> state \<Rightarrow> state" where
  \<comment> \<open>the call \<^verbatim>\<open>enqueueFile(url, baseUrl)\<close>: the increment, and the task up to its first
      suspension\<close>
  "enqueueFile_start w v url baseUrl st =
     (case resolveUrl_begin w v url baseUrl (st\<lparr>activeTasks := activeTasks st + 1\<rparr>) of
        (Settled r, st') \<Rightarrow> st'\<lparr>tasks := tasks st' @ [AwaitResolved url r]\<rparr>
      | (Package specifier, st') \<Rightarrow> st'\<lparr>tasks := tasks st' @ [AwaitManifest url]\<rparr>)"

definition enqueueFile_finally :: "state \<Rightarrow> state" where
  \<comment> \<open>the \<^verbatim>\<open>finally\<close> block\<close>
  "enqueueFile_finally st =
     (let st' = st\<lparr>activeTasks := activeTasks st - 1\<rparr> in
      if activeTasks st' = 0 \<and> onQueueEmpty st' then st'\<lparr>completions := completions st' + 1\<rparr>
      else st')"

definition enqueueFile_catch :: "string \<Rightarrow> state \<Rightarrow> state" where
  \<comment> \<open>the outer \<^verbatim>\<open>catch\<close> block, then \<^verbatim>\<open>finally\<close>\<close>
  "enqueueFile_catch url st =
     enqueueFile_finally (st\<lparr>hasError := True, console := console st @ [LogUnexpected url]\<rparr>)"

definition enqueueFile_manifest :: "world \<Rightarrow> string \<Rightarrow> state \<Rightarrow> state" where
  \<comment> \<open>the manifest has answered: \<^verbatim>\<open>resolveUrl\<close> runs to its end and settles its promise\<close>
  "enqueueFile_manifest w url st =
     (case resolveUrl_end w url st of
        (r, st') \<Rightarrow> st'\<lparr>tasks := tasks st' @ [AwaitResolved url r]\<rparr>)"

definition enqueueFile_resolved :: "string \<Rightarrow> error + string list option \<Rightarrow> state \<Rightarrow> state" where
  \<comment> \<open>from \<^verbatim>\<open>await resolveUrl\<close> to the call of \<^verbatim>\<open>fetchFile\<close>\<close>
  "enqueueFile_resolved url r st =
     (case r of
        Inl e \<Rightarrow> enqueueFile_catch url st
      | Inr None \<Rightarrow> enqueueFile_finally st
      | Inr (Some []) \<Rightarrow> enqueueFile_finally st
      | Inr (Some (primaryUrl # others)) \<Rightarrow>
          if primaryUrl \<in> set (parsedUrls st) then enqueueFile_finally st
          else st\<lparr>tasks := tasks st @ [AwaitFetch url primaryUrl (primaryUrl # others)]\<rparr>)"

definition enqueueFile_fetch :: "world \<Rightarrow> variant \<Rightarrow> string \<Rightarrow> string \<Rightarrow> string list \<Rightarrow> state \<Rightarrow> state" where
  \<comment> \<open>\<^verbatim>\<open>fetchFile\<close> runs to its end and settles its promise\<close>
  "enqueueFile_fetch w v url primaryUrl targetUrls st =
     (case fetchFile w v targetUrls of
        (res, reqs) \<Rightarrow>
          st\<lparr>requests := requests st @ reqs, tasks := tasks st @ [AwaitFetched url primaryUrl res]\<rparr>)"

definition parseSource :: "world \<Rightarrow> variant \<Rightarrow> fetched \<Rightarrow> jsval option" where
  \<comment> \<open>the parse: acorn as a module, then as a script; oxc once\<close>
  "parseSource w v f =
     (case v of
        Acorn \<Rightarrow> (case parseModule w (code f) of
                    Some ast \<Rightarrow> Some ast
                  | None \<Rightarrow> parseScript w (code f))
      | Oxc \<Rightarrow> parseSync w (finalUrl f) (code f))"

definition enqueueAll :: "world \<Rightarrow> variant \<Rightarrow> string list \<Rightarrow> string \<Rightarrow> state \<Rightarrow> state" where
  \<comment> \<open>\<^verbatim>\<open>for (const dep of deps) enqueueFile(dep, finalUrl)\<close>\<close>
  "enqueueAll w v deps base st = fold (\<lambda>dep. enqueueFile_start w v dep (Some base)) deps st"

definition enqueueFile_parsed :: "world \<Rightarrow> variant \<Rightarrow> string \<Rightarrow> fetched \<Rightarrow> jsval \<Rightarrow> state \<Rightarrow> state" where
  \<comment> \<open>the block \<^verbatim>\<open>if (ast) { ... }\<close> and the end of the task\<close>
  "enqueueFile_parsed w v url f ast st =
     (if truthy ast then
        (case findDependencies v ast [] of
           Inl e \<Rightarrow> enqueueFile_catch url st
         | Inr deps \<Rightarrow>
             if deps \<noteq> [] then
               enqueueFile_finally
                 (enqueueAll w v deps (finalUrl f) (st\<lparr>console := console st @ [LogDependencies deps]\<rparr>))
             else enqueueFile_finally st)
      else enqueueFile_finally st)"

definition markParsed :: "string \<Rightarrow> string \<Rightarrow> string list \<Rightarrow> string list" where
  \<comment> \<open>\<^verbatim>\<open>parsedUrls.add(finalUrl); if (primaryUrl !== finalUrl) parsedUrls.add(primaryUrl)\<close>\<close>
  "markParsed final primaryUrl parsed =
     (if primaryUrl \<noteq> final then setAdd primaryUrl (setAdd final parsed) else setAdd final parsed)"

definition downloadedLine :: "variant \<Rightarrow> fetched \<Rightarrow> logline" where
  "downloadedLine v f =
     (case v of
        Acorn \<Rightarrow> LogDownloaded (finalUrl f)
      | Oxc \<Rightarrow> if isLocal f then LogReadLocal (finalUrl f) else LogDownloaded (finalUrl f))"

definition enqueueFile_fetched ::
  "world \<Rightarrow> variant \<Rightarrow> string \<Rightarrow> string \<Rightarrow> error + fetched option \<Rightarrow> state \<Rightarrow> state" where
  \<comment> \<open>from \<^verbatim>\<open>await fetchFile\<close> to the end of the task. A \<^verbatim>\<open>null\<close> result (the later version,
      a local file that cannot be read) throws at the destructuring, into the outer \<^verbatim>\<open>catch\<close>.\<close>
  "enqueueFile_fetched w v url primaryUrl res st =
     (case res of
        Inl e \<Rightarrow> enqueueFile_finally (st\<lparr>console := console st @ [LogFetchFailed url]\<rparr>)
      | Inr None \<Rightarrow> enqueueFile_catch url st
      | Inr (Some f) \<Rightarrow>
          if finalUrl f \<in> set (parsedUrls st) then enqueueFile_finally st
          else
            (let st1 = st\<lparr>parsedUrls := markParsed (finalUrl f) primaryUrl (parsedUrls st),
                           console := console st @ [downloadedLine v f],
                           bundleParts := bundleParts st @ [code f],
                           bundledFrom := bundledFrom st @ [finalUrl f],
                           parsedLog := parsedLog st @ [finalUrl f]\<rparr>
             in case parseSource w v f of
                  None \<Rightarrow>
                    enqueueFile_finally (st1\<lparr>console := console st1 @ [LogParseFailed (finalUrl f)]\<rparr>)
                | Some ast \<Rightarrow> enqueueFile_parsed w v url f ast st1))"

definition resume :: "world \<Rightarrow> variant \<Rightarrow> task \<Rightarrow> state \<Rightarrow> state" where
  "resume w v t st =
     (case t of
        AwaitManifest url \<Rightarrow> enqueueFile_manifest w url st
      | AwaitResolved url r \<Rightarrow> enqueueFile_resolved url r st
      | AwaitFetch url primaryUrl targetUrls \<Rightarrow> enqueueFile_fetch w v url primaryUrl targetUrls st
      | AwaitFetched url primaryUrl res \<Rightarrow> enqueueFile_fetched w v url primaryUrl res st)"

definition step :: "world \<Rightarrow> variant \<Rightarrow> nat \<Rightarrow> state \<Rightarrow> state" where
  \<comment> \<open>resume the suspended task number \<open>i\<close>; nothing happens when there is none\<close>
  "step w v i st =
     (if i < length (tasks st)
      then resume w v (tasks st ! i) (st\<lparr>tasks := take i (tasks st) @ drop (Suc i) (tasks st)\<rparr>)
      else st)"

definition run_start :: "world \<Rightarrow> variant \<Rightarrow> string \<Rightarrow> state" where
  \<comment> \<open>\<^verbatim>\<open>run\<close> up to its \<^verbatim>\<open>await\<close>: the first task is scheduled, then the promise either
      resolves at once or leaves its \<^verbatim>\<open>resolve\<close> in \<^verbatim>\<open>onQueueEmpty\<close>\<close>
  "run_start w v pkg =
     (let st = enqueueFile_start w v pkg None (initial\<lparr>console := [LogAnalyzing pkg]\<rparr>) in
      if activeTasks st = 0 then st\<lparr>completions := completions st + 1\<rparr>
      else st\<lparr>onQueueEmpty := True\<rparr>)"

definition run_steps :: "world \<Rightarrow> variant \<Rightarrow> string \<Rightarrow> nat list \<Rightarrow> state" where
  \<comment> \<open>the state of a run after resuming tasks in the order of the schedule\<close>
  "run_steps w v pkg schedule = fold (step w v) schedule (run_start w v pkg)"

datatype outcome =
    ExitFailure            \<comment> \<open>\<^verbatim>\<open>process.exit(1)\<close>\<close>
  | Crashed                \<comment> \<open>\<^verbatim>\<open>run\<close> rejects: the compression throws\<close>
  | Reported nat nat nat   \<comment> \<open>the final report: files count, minified bytes, gzipped bytes\<close>

definition run_finish :: "world \<Rightarrow> variant \<Rightarrow> state \<Rightarrow> outcome \<times> state" where
  \<comment> \<open>\<^verbatim>\<open>run\<close> after its \<^verbatim>\<open>await\<close>\<close>
  "run_finish w v st =
     (if bundleParts st = [] then (ExitFailure, st\<lparr>console := console st @ [LogNoFiles]\<rparr>)
      else
        (let combinedCode = joinWith [CHR 0x0A] (bundleParts st);
             (minifiedCode, failed) =
                (case minify w combinedCode of
                   None \<Rightarrow> (combinedCode, True)
                 | Some c \<Rightarrow>
                     if c = [] then (combinedCode, v = Oxc) else (c, False));
             st1 = st\<lparr>console := console st @ [LogComplete] @ (if failed then [LogMinifyFailed] else [])\<rparr>
         in case gzipLength w minifiedCode of
              None \<Rightarrow> (Crashed, st1)
            | Some gz \<Rightarrow>
                (Reported (length (bundleParts st)) (byteLength w minifiedCode) gz,
                 st1\<lparr>console := console st1 @
                        [LogReport (length (bundleParts st)) (byteLength w minifiedCode) gz]\<rparr>)))"

subsection \<open>Vocabulary of the specification for resolution and fetching\<close>

text \<open>
  The export-map lookup in the words of the specification: \<^verbatim>\<open>"./<subpath>"\<close>, and
  \<^verbatim>\<open>"./<subpath>.js"\<close> when the first is absent or falsy.
\<close>

definition exportTarget :: "jsval \<Rightarrow> string \<Rightarrow> jsval" where
  "exportTarget exports subpath =
     (if truthy (field exports (''./'' @ subpath)) then field exports (''./'' @ subpath)
      else field exports (''./'' @ subpath @ ''.js''))"

text \<open>
  The fetcher in the words of the specification: the attempts for one remote candidate are the
  direct URL and, unless it ends in a source-file extension, the three suffixed URLs;
  \<open>firstResponse\<close> is the first attempt of a list that succeeds and \<open>tried\<close> the attempts made
  up to and including it.
\<close>

definition attempts :: "string \<Rightarrow> string list" where
  "attempts url =
     url # (if looksLikeSource url then [] else [url @ ''.js'', url @ ''.mjs'', url @ ''/index.js''])"

fun firstResponse :: "world \<Rightarrow> string list \<Rightarrow> response option" where
  "firstResponse w [] = None"
| "firstResponse w (a # as) = (case net w a of Some r \<Rightarrow> Some r | None \<Rightarrow> firstResponse w as)"

fun tried :: "world \<Rightarrow> string list \<Rightarrow> string list" where
  "tried w [] = []"
| "tried w (a # as) = a # (case net w a of Some r \<Rightarrow> [] | None \<Rightarrow> tried w as)"

subsection \<open>Example worlds\<close>

text \<open>
  \<open>offline\<close> answers no request and has no file. Its \<open>urlJoin\<close> appends the relative path
  to the base, which is what the URL constructor does for a path without dot segments against
  a base that ends in a slash; the examples use it only so.
\<close>

definition offline :: world where
  "offline = \<lparr>net = (\<lambda>u. None), urlJoin = (\<lambda>rel base. Some (base @ rel)),
     pathResolve = (\<lambda>base rel. base @ ''/../'' @ rel), isFile = (\<lambda>p. False), readFile = (\<lambda>p. None),
     parseModule = (\<lambda>c. None), parseScript = (\<lambda>c. None), parseSync = (\<lambda>f c. None),
     minify = (\<lambda>c. None), byteLength = length, gzipLength = (\<lambda>c. Some (length c))\<rparr>"

definition jsonResponse :: "string \<Rightarrow> jsval \<Rightarrow> response" where
  "jsonResponse u j = \<lparr>rbody = None, rjson = Some j, rurl = u\<rparr>"

definition textResponse :: "string \<Rightarrow> string \<Rightarrow> response" where
  "textResponse u t = \<lparr>rbody = Some t, rjson = None, rurl = u\<rparr>"

definition noResolver :: resolver where
  "noResolver = \<lparr>pkgResolveCache = Map.empty, requests = []\<rparr>"

definition lodashManifest :: jsval where
  "lodashManifest = JObj [(''exports'', JObj [(''./isEqual'', JStr ''./isEqual.js'')])]"

definition lodashWorld :: world where
  "lodashWorld = offline\<lparr>net := (\<lambda>u. if u = ''https://cdn.jsdelivr.net/npm/lodash-es/package.json''
                                      then Some (jsonResponse u lodashManifest) else None)\<rparr>"

definition fileUrlWorld :: world where
  "fileUrlWorld = offline\<lparr>net := (\<lambda>u. if u = ''https://cdn.jsdelivr.net/npm/p@1.0.0/index.js''
                                       then Some (textResponse u ''export default 1'') else None)\<rparr>"

definition redirectWorld :: world where
  "redirectWorld = offline\<lparr>net := (\<lambda>u. if u = ''https://h/a.js''
                                       then Some (textResponse ''https://h/v2/a.js'' ''x'') else None)\<rparr>"

subsection \<open>Vocabulary of the specification for a run\<close>

text \<open>
  \<open>balanced\<close> is the state between two steps of a run that has left its \<^verbatim>\<open>resolve\<close> in
  \<^verbatim>\<open>onQueueEmpty\<close>: the counter is the number of suspended tasks, and the completion signal
  has fired once if none is left and not at all otherwise. \<open>running\<close> is the state inside a
  step, the resumed task taken out of the pool and still counted.
\<close>

definition balanced :: "state \<Rightarrow> bool" where
  "balanced st = (activeTasks st = int (length (tasks st)) \<and> onQueueEmpty st \<and>
                  completions st = (if tasks st = [] then 1 else 0))"

definition running :: "state \<Rightarrow> bool" where
  "running st = (activeTasks st = int (length (tasks st)) + 1 \<and> onQueueEmpty st \<and>
                 completions st = 0)"

text \<open>
  \<open>deduplicated\<close>: no canonical location has two bundle parts, every location with a part is
  marked visited, and the parser has been handed exactly the bundled texts.
\<close>

definition deduplicated :: "state \<Rightarrow> bool" where
  "deduplicated st = (distinct (bundledFrom st) \<and> set (bundledFrom st) \<subseteq> set (parsedUrls st) \<and>
                      parsedLog st = bundledFrom st \<and> length (bundleParts st) = length (bundledFrom st))"

text \<open>
  The canonical locations a world can ever answer with, and the measure of what a run has
  left to do: the locations not yet visited, then the stages the suspended tasks have left.
\<close>

definition locations :: "world \<Rightarrow> string set" where
  "locations w = {u. \<exists>a r. net w a = Some r \<and> rurl r = u} \<union> {p. isFile w p}"

fun weight :: "task \<Rightarrow> nat" where
  "weight (AwaitManifest url) = 4"
| "weight (AwaitResolved url r) = 3"
| "weight (AwaitFetch url p us) = 2"
| "weight (AwaitFetched url p res) = 1"

definition pending :: "state \<Rightarrow> nat" where
  "pending st = sum_list (map weight (tasks st))"

definition unvisited :: "world \<Rightarrow> state \<Rightarrow> nat" where
  "unvisited w st = card (locations w - set (parsedUrls st))"

fun known :: "world \<Rightarrow> task \<Rightarrow> bool" where
  "known w (AwaitFetched url p (Inr (Some f))) = (finalUrl f \<in> locations w)"
| "known w t = True"

definition progress :: "world \<Rightarrow> nat \<Rightarrow> state \<Rightarrow> state \<Rightarrow> bool" where
  "progress w k st st' =
     (list_all (known w) (tasks st') \<and>
      (unvisited w st' < unvisited w st \<or>
       unvisited w st' = unvisited w st \<and> pending st' < pending st + k))"

subsection \<open>Example runs\<close>

text \<open>
  An entry module \<^verbatim>\<open>https://h/e.js\<close> that requires \<^verbatim>\<open>https://h/a\<close> and \<^verbatim>\<open>https://h/a.js\<close>;
  the first is served only under the suffix \<^verbatim>\<open>.js\<close>, so both resolve to the same canonical
  location.
\<close>

definition twiceProgram :: jsval where
  "twiceProgram = mkProgram [mkExprStmt (mkRequire ''https://h/a''), mkExprStmt (mkRequire ''https://h/a.js'')]"

definition twiceWorld :: world where
  "twiceWorld = offline\<lparr>
     net := (\<lambda>u. if u = ''https://h/e.js'' then Some (textResponse u ''E'')
                 else if u = ''https://h/a.js'' then Some (textResponse u ''A'') else None),
     parseModule := (\<lambda>c. if c = ''E'' then Some twiceProgram else if c = ''A'' then Some (mkProgram []) else None),
     parseSync := (\<lambda>f c. if c = ''E'' then Some twiceProgram else if c = ''A'' then Some (mkProgram []) else None)\<rparr>"

text \<open>
  The text \<^verbatim>\<open>function (\<close> is no program. acorn throws a syntax error on it, as a module and
  as a script. oxc does not throw: it reports the error beside a program without statements.
\<close>

definition brokenWorld :: world where
  "brokenWorld = offline\<lparr>
     net := (\<lambda>u. if u = ''https://h/broken.js'' then Some (textResponse u ''function ('') else None),
     parseModule := (\<lambda>c. None),
     parseScript := (\<lambda>c. None),
     parseSync := (\<lambda>f c. Some (mkProgram []))\<rparr>"

definition snapshot ::
  "string list \<Rightarrow> string list \<Rightarrow> string list \<Rightarrow> int \<Rightarrow> logline list \<Rightarrow> task list \<Rightarrow> nat
     \<Rightarrow> string list \<Rightarrow> state" where
  "snapshot reqs parsed parts active log ts fired locs =
     \<lparr>pkgResolveCache = Map.empty, requests = reqs, parsedUrls = parsed, bundleParts = parts,
      activeTasks = active, onQueueEmpty = True, hasError = False, console = log, tasks = ts,
      completions = fired, bundledFrom = locs, parsedLog = locs\<rparr>"

subsection \<open>Dependency extraction and pruning\<close>

lemma set_setAdd: "set (setAdd s d) = insert s (set d)"
  by (auto simp: setAdd_def)

lemma add_if_val_None [simp]: "add_if_val None d = d"
  by (simp add: add_if_val_def)

lemma add_if_val_acc: "set (add_if_val x d) = set d \<union> set (add_if_val x [])"
  by (auto simp: add_if_val_def set_setAdd split: option.splits)

lemma extractDeps_single: "\<exists>x. \<forall>d. extractDeps v n d = add_if_val x d"
proof -
  let ?t = "field n ''type''"
  consider (call) "?t = JStr ''CallExpression''"
    | (imp) "?t = JStr ''ImportExpression''"
    | (decl) "?t \<in> {JStr ''ImportDeclaration'', JStr ''ExportNamedDeclaration'', JStr ''ExportAllDeclaration''}"
    | (other) "?t \<noteq> JStr ''CallExpression''" "?t \<noteq> JStr ''ImportExpression''"
        "?t \<notin> {JStr ''ImportDeclaration'', JStr ''ExportNamedDeclaration'', JStr ''ExportAllDeclaration''}"
    by blast
  then show ?thesis
  proof cases
    case call
    show ?thesis
    proof (cases "truthy (field n ''callee'') \<and> field (field n ''callee'') ''type'' = JStr ''Identifier''
                  \<and> field (field n ''callee'') ''name'' = JStr ''require''")
      case True
      then show ?thesis using call
        by (cases "firstArgument n") (auto simp: extractDeps_def intro: exI [of _ None])
    next
      case False
      then show ?thesis using call
        by (intro exI [of _ None]) (auto simp: extractDeps_def)
    qed
  next
    case imp
    then show ?thesis
      by (intro exI [of _ "extractString v (field n ''source'')"]) (simp add: extractDeps_def)
  next
    case decl
    then show ?thesis
      by (cases "truthy (field n ''source'')")
         (auto simp: extractDeps_def intro: exI [of _ None])
  next
    case other
    then show ?thesis
      by (intro exI [of _ None]) (simp add: extractDeps_def)
  qed
qed

lemma extractDeps_acc: "set (extractDeps v n d) = set d \<union> set (extractDeps v n [])"
  using extractDeps_single [of v n] add_if_val_acc by metis


lemma acc_rel_seq:
  assumes "acc_rel d x x0"
    and "\<And>r. x = Inr r \<Longrightarrow> \<forall>d'. acc_rel d' (f d') (f [])"
  shows "acc_rel d (case x of Inl e \<Rightarrow> Inl e | Inr r \<Rightarrow> f r) (case x0 of Inl e \<Rightarrow> Inl e | Inr r \<Rightarrow> f r)"
proof (cases x)
  case (Inl e)
  with assms(1) show ?thesis by (auto simp: acc_rel_def split: sum.splits)
next
  case (Inr r)
  with assms(1) obtain r0 where x0: "x0 = Inr r0" and r: "set r = set d \<union> set r0"
    by (auto simp: acc_rel_def split: sum.splits)
  from assms(2) [OF Inr] have a: "acc_rel r (f r) (f [])" and b: "acc_rel r0 (f r0) (f [])"
    by blast+
  show ?thesis using a b r unfolding Inr x0
    by (auto simp: acc_rel_def split: sum.splits)
qed

lemma fd_acc_all:
  fixes d0 :: "string list"
  shows "\<forall>d. acc_rel d (findDependencies v n d) (findDependencies v n [])"
    and "\<forall>d. acc_rel d (findDependencies_each v xs d) (findDependencies_each v xs [])"
    and "\<forall>d. acc_rel d (findDependencies_keys v ks fs d) (findDependencies_keys v ks fs [])"
proof (induction v n d0 and v xs d0 and v ks fs d0
       rule: findDependencies_findDependencies_each_findDependencies_keys.induct)
  case (1 v xs deps)
  then show ?case by simp
next
  case (2 v fs deps)
  show ?case
  proof (cases "pruneBranch v (JObj fs)")
    case (Inl e)
    then show ?thesis by (simp add: acc_rel_def)
  next
    case (Inr p)
    show ?thesis
    proof (cases p)
      case (Descend k)
      with Inr 2(1) show ?thesis by simp
    next
      case NotPruned
      have k: "\<forall>d. acc_rel d (findDependencies_keys v (keysToVisit v) fs d)
                  (findDependencies_keys v (keysToVisit v) fs [])"
        using 2(2) Inr NotPruned by simp
      show ?thesis
      proof
        fix d
        let ?K = "findDependencies_keys v (keysToVisit v) fs"
        have a: "acc_rel (extractDeps v (JObj fs) d) (?K (extractDeps v (JObj fs) d)) (?K [])"
          and b: "acc_rel (extractDeps v (JObj fs) []) (?K (extractDeps v (JObj fs) [])) (?K [])"
          using k by blast+
        have e: "set (extractDeps v (JObj fs) d) = set d \<union> set (extractDeps v (JObj fs) [])"
          by (rule extractDeps_acc)
        show "acc_rel d (findDependencies v (JObj fs) d) (findDependencies v (JObj fs) [])"
          using a b e Inr NotPruned
          by (auto simp: acc_rel_def split: sum.splits)
      qed
    qed
  qed
next
  case (9 v x xs deps)
  show ?case
  proof
    fix d
    have "acc_rel d (findDependencies v x d) (findDependencies v x [])"
      using 9(1) by blast
    moreover have "\<And>r. findDependencies v x d = Inr r \<Longrightarrow>
        \<forall>d'. acc_rel d' (findDependencies_each v xs d') (findDependencies_each v xs [])"
    proof -
      fix r assume "findDependencies v x d = Inr r"
      moreover have "acc_rel d (findDependencies v x d) (findDependencies v x [])"
        and "acc_rel deps (findDependencies v x deps) (findDependencies v x [])"
        using 9(1) by blast+
      ultimately obtain r' where "findDependencies v x deps = Inr r'"
        by (auto simp: acc_rel_def split: sum.splits)
      then show "\<forall>d'. acc_rel d' (findDependencies_each v xs d') (findDependencies_each v xs [])"
        using 9(2) by blast
    qed
    ultimately show "acc_rel d (findDependencies_each v (x # xs) d) (findDependencies_each v (x # xs) [])"
      unfolding findDependencies_each.simps by (rule acc_rel_seq)
  qed
next
  case (11 v k ks fs deps)
  show ?case
  proof (cases "truthy (field (JObj fs) k)")
    case False
    with 11(3) show ?thesis by simp
  next
    case True
    let ?x = "field (JObj fs) k"
    show ?thesis
    proof
      fix d
      have "acc_rel d (findDependencies v ?x d) (findDependencies v ?x [])"
        using 11(1) True by blast
      moreover have "\<And>r. findDependencies v ?x d = Inr r \<Longrightarrow>
          \<forall>d'. acc_rel d' (findDependencies_keys v ks fs d') (findDependencies_keys v ks fs [])"
      proof -
        fix r assume "findDependencies v ?x d = Inr r"
        moreover have "acc_rel d (findDependencies v ?x d) (findDependencies v ?x [])"
          and "acc_rel deps (findDependencies v ?x deps) (findDependencies v ?x [])"
          using 11(1) True by blast+
        ultimately obtain r' where "findDependencies v ?x deps = Inr r'"
          by (auto simp: acc_rel_def split: sum.splits)
        then show "\<forall>d'. acc_rel d' (findDependencies_keys v ks fs d') (findDependencies_keys v ks fs [])"
          using 11(2) True by blast
      qed
      ultimately have "acc_rel d (case findDependencies v ?x d of Inl e \<Rightarrow> Inl e | Inr r \<Rightarrow> findDependencies_keys v ks fs r)
          (case findDependencies v ?x [] of Inl e \<Rightarrow> Inl e | Inr r \<Rightarrow> findDependencies_keys v ks fs r)"
        by (rule acc_rel_seq)
      then show "acc_rel d (findDependencies_keys v (k # ks) fs d) (findDependencies_keys v (k # ks) fs [])"
        using True by simp
    qed
  qed
qed (simp_all add: acc_rel_def)

lemma field_JObj_cases: "field n k \<noteq> JUndef \<Longrightarrow> \<exists>fs. n = JObj fs"
  by (cases n) auto

lemma isStringLiteral_obj: "isStringLiteral v n s \<Longrightarrow> \<exists>fs. n = JObj fs"
  by (cases n) (auto simp: isStringLiteral_def)

lemma isStringLiteral_not_env: "isStringLiteral v n s \<Longrightarrow> \<not> isProcessEnvNodeEnv n"
  by (cases v) (auto simp: isStringLiteral_def isProcessEnvNodeEnv_def stringLiteralType_def)

lemma getString_lit: "isStringLiteral v n s \<Longrightarrow> getString v n = Inr (Some s)"
  by (frule isStringLiteral_obj) (auto simp: isStringLiteral_def getString_def nullish_def)

lemma getString_Some: "getString v n = Inr (Some s) \<Longrightarrow> isStringLiteral v n s"
  by (auto simp: isStringLiteral_def getString_def split: if_splits jsval.splits)

lemma extractString_iff: "extractString v n = Some s \<longleftrightarrow> isStringLiteral v n s"
proof
  assume "extractString v n = Some s"
  then show "isStringLiteral v n s"
    by (auto simp: isStringLiteral_def extractString_def split: if_splits jsval.splits)
next
  assume a: "isStringLiteral v n s"
  then obtain fs where "n = JObj fs" by (auto dest: isStringLiteral_obj)
  with a show "extractString v n = Some s"
    by (auto simp: isStringLiteral_def extractString_def)
qed

lemma findDependencies_falsy: "\<not> truthy x \<Longrightarrow> findDependencies v x d = Inr d"
  by (cases x) auto

lemma acc_rel_InrD:
  "acc_rel d (Inr r) y \<Longrightarrow> \<exists>r0. y = Inr r0 \<and> set r = set d \<union> set r0"
  by (auto simp: acc_rel_def split: sum.splits)

lemma findDependencies_keys_cover:
  "findDependencies_keys v ks fs d = Inr r \<Longrightarrow>
     set d \<subseteq> set r \<and>
     (\<forall>k\<in>set ks. \<exists>r0. findDependencies v (field (JObj fs) k) [] = Inr r0 \<and> set r0 \<subseteq> set r)"
proof (induction ks arbitrary: d)
  case Nil
  then show ?case by simp
next
  case (Cons k ks)
  let ?x = "field (JObj fs) k"
  show ?case
  proof (cases "truthy ?x")
    case False
    with Cons.prems have "findDependencies_keys v ks fs d = Inr r" by simp
    from Cons.IH [OF this] False show ?thesis
      by (auto simp: findDependencies_falsy simp del: field.simps)
  next
    case True
    with Cons.prems obtain d' where x: "findDependencies v ?x d = Inr d'"
      and rest: "findDependencies_keys v ks fs d' = Inr r"
      by (auto split: sum.splits)
    from fd_acc_all(1) [of v ?x] x obtain r0 where
      r0: "findDependencies v ?x [] = Inr r0" "set d' = set d \<union> set r0"
      by (metis acc_rel_InrD)
    from Cons.IH [OF rest] r0 show ?thesis
      by (auto simp del: field.simps)
  qed
qed

lemmas mk_defs = mkLiteral_def mkIdentifier_def mkMember_def mkBinary_def mkCall_def mkRequire_def
  mkExprStmt_def mkBlock_def mkIf_def mkConditional_def nodeEnv_def mkProgram_def

lemma pruneBranch_true:
  assumes "field (JObj fs) ''type'' = JStr ''IfStatement'' \<or>
           field (JObj fs) ''type'' = JStr ''ConditionalExpression''"
    and "evaluateEnvCondition v (field (JObj fs) ''test'') = Inr (Some True)"
  shows "pruneBranch v (JObj fs) = Inr (Descend ''consequent'')"
  using assms by (auto simp: pruneBranch_def simp del: field.simps)

lemma pruneBranch_false:
  assumes "field (JObj fs) ''type'' = JStr ''IfStatement'' \<or>
           field (JObj fs) ''type'' = JStr ''ConditionalExpression''"
    and "evaluateEnvCondition v (field (JObj fs) ''test'') = Inr (Some False)"
  shows "pruneBranch v (JObj fs) = Inr (Descend ''alternate'')"
  using assms by (auto simp: pruneBranch_def simp del: field.simps)

lemma pruneBranch_none:
  assumes "evaluateEnvCondition v (field (JObj fs) ''test'') = Inr None"
  shows "pruneBranch v (JObj fs) = Inr NotPruned"
  using assms by (auto simp: pruneBranch_def simp del: field.simps)

lemma pruneBranch_error:
  assumes "field (JObj fs) ''type'' = JStr ''IfStatement'' \<or>
           field (JObj fs) ''type'' = JStr ''ConditionalExpression''"
    and "evaluateEnvCondition v (field (JObj fs) ''test'') = Inl e"
  shows "pruneBranch v (JObj fs) = Inl e"
  using assms by (auto simp: pruneBranch_def simp del: field.simps)

lemma branch_keys: "''consequent'' \<in> set (keysToVisit v)" "''alternate'' \<in> set (keysToVisit v)"
  by (cases v; simp add: keysToVisit_def)+

lemma operandsPresent_field: "operandsPresent (JObj fs) \<Longrightarrow> operandsPresent (field (JObj fs) k)"
  by (auto split: option.splits dest!: map_of_SomeD)

lemma getString_ok: "\<not> nullish n \<Longrightarrow> \<exists>r. getString v n = Inr r"
  by (auto simp: getString_def split: jsval.splits)

lemma evaluateEnvCondition_ok:
  assumes "operandsPresent t"
  shows "\<exists>r. evaluateEnvCondition v t = Inr r"
proof (cases "field t ''type'' = JStr ''BinaryExpression''")
  case False
  then show ?thesis by (simp add: evaluateEnvCondition_def)
next
  case True
  then obtain fs where t: "t = JObj fs" by (cases t) auto
  with True assms have n: "\<not> nullish (field t ''left'')" "\<not> nullish (field t ''right'')"
    by auto
  from getString_ok [OF n(1), of v] getString_ok [OF n(2), of v]
  obtain a b where "getString v (field t ''left'') = Inr a" "getString v (field t ''right'') = Inr b"
    by blast
  then show ?thesis
    by (auto simp: evaluateEnvCondition_def split: option.splits)
qed

lemma pruneBranch_ok:
  assumes "operandsPresent (JObj fs)"
  shows "\<exists>r. pruneBranch v (JObj fs) = Inr r"
proof -
  from assms have "operandsPresent (field (JObj fs) ''test'')"
    by (rule operandsPresent_field)
  from evaluateEnvCondition_ok [OF this, of v] obtain r where
    "evaluateEnvCondition v (field (JObj fs) ''test'') = Inr r" by blast
  then show ?thesis
    by (auto simp: pruneBranch_def simp del: field.simps split: option.splits bool.splits)
qed

lemma findDependencies_total:
  "operandsPresent n \<Longrightarrow> \<exists>r. findDependencies v n d = Inr r"
  "(\<forall>x\<in>set xs. operandsPresent x) \<Longrightarrow> \<exists>r. findDependencies_each v xs d = Inr r"
  "operandsPresent (JObj fs) \<Longrightarrow> \<exists>r. findDependencies_keys v ks fs d = Inr r"
proof (induction v n d and v xs d and v ks fs d
       rule: findDependencies_findDependencies_each_findDependencies_keys.induct)
  case (1 v xs deps)
  then show ?case by simp
next
  case (2 v fs deps)
  from pruneBranch_ok [OF "2.prems", of v] obtain p where p: "pruneBranch v (JObj fs) = Inr p"
    by blast
  show ?case
  proof (cases p)
    case (Descend k)
    with p "2.IH"(1) [OF p Descend] operandsPresent_field [OF "2.prems", of k] show ?thesis
      by (simp del: field.simps)
  next
    case NotPruned
    with p "2.IH"(2) [OF p NotPruned] "2.prems" show ?thesis
      by (simp del: field.simps operandsPresent.simps)
  qed
next
  case (9 v x xs deps)
  from "9.prems" "9.IH"(1) obtain r where r: "findDependencies v x deps = Inr r" by auto
  with "9.IH"(2) [OF r] "9.prems" show ?case by simp
next
  case (11 v k ks fs deps)
  show ?case
  proof (cases "truthy (field (JObj fs) k)")
    case False
    with "11.IH"(3) "11.prems" show ?thesis by (simp del: field.simps operandsPresent.simps)
  next
    case True
    from "11.IH"(1) [OF True] operandsPresent_field [OF "11.prems", of k]
    obtain r where r: "findDependencies v (field (JObj fs) k) deps = Inr r" by blast
    with "11.IH"(2) [OF True r] "11.prems" True show ?thesis
      by (simp del: field.simps operandsPresent.simps)
  qed
qed simp_all

lemma nodeEnv_ok: "isProcessEnvNodeEnv nodeEnv"
  by (simp add: mk_defs isProcessEnvNodeEnv_def propName_def)

lemma lit_ok: "isStringLiteral v (mkLiteral s) s"
  by (cases v) (simp_all add: mk_defs isStringLiteral_def stringLiteralType_def)

lemmas fd_eval = mk_defs keysToVisit_def pruneBranch_def extractDeps_def firstArgument_def
  extractString_def stringLiteralType_def add_if_val_def setAdd_def evaluateEnvCondition_def
  isProcessEnvNodeEnv_def propName_def getString_def nullish_def

lemma require_call_deps:
  "findDependencies v (mkRequire s) [] = Inr (if s = [] then [] else [s])"
  by (cases v) (simp_all add: fd_eval)

lemma require_block_deps:
  "findDependencies v (mkBlock [mkExprStmt (mkRequire s)]) [] = Inr (if s = [] then [] else [s])"
  by (cases v) (simp_all add: fd_eval)

text \<open>
  C1. In the specification the consequent or the alternate of an \<^verbatim>\<open>if\<close> statement or a conditional
  expression is skipped only when the test compares \<^verbatim>\<open>process.env.NODE_ENV\<close> with a string
  literal; under every other test both branches are searched. The recogniser reads the name
  of the property of a member expression and never whether the access is computed, so it takes
  \<^verbatim>\<open>process.env[NODE_ENV]\<close> and \<^verbatim>\<open>process[env].NODE_ENV\<close>, which read whatever property the
  variables \<^verbatim>\<open>NODE_ENV\<close> and \<^verbatim>\<open>env\<close> name, for \<^verbatim>\<open>process.env.NODE_ENV\<close>. In
  \<^verbatim>\<open>if (process.env[NODE_ENV] !== "production") require("x"); else require("y");\<close> the
  consequent is skipped and \<^verbatim>\<open>x\<close> is never recorded, in both versions; so is \<^verbatim>\<open>b\<close> in
  \<^verbatim>\<open>"production" === process[env].NODE_ENV ? require("a") : require("b")\<close>. The same statement
  with the variable \<^verbatim>\<open>KEY\<close> in place of \<^verbatim>\<open>NODE_ENV\<close> records both \<^verbatim>\<open>x\<close> and \<^verbatim>\<open>y\<close>, and
  with \<^verbatim>\<open>process.env.NODE_ENV\<close> itself it records \<^verbatim>\<open>y\<close> alone, as the specification says.
\<close>

theorem computed_member_is_pruned:
  "isProcessEnvNodeEnv (envLookup ''NODE_ENV'')
   \<and> findDependencies Acorn
         (mkIf (mkBinary ''!=='' (envLookup ''NODE_ENV'') (mkLiteral ''production''))
               (mkExprStmt (mkRequire ''x'')) (mkExprStmt (mkRequire ''y''))) [] = Inr [''y'']
   \<and> findDependencies Oxc
         (mkIf (mkBinary ''!=='' (envLookup ''NODE_ENV'') (mkLiteral ''production''))
               (mkExprStmt (mkRequire ''x'')) (mkExprStmt (mkRequire ''y''))) [] = Inr [''y'']
   \<and> findDependencies Acorn
         (mkConditional
            (mkBinary ''==='' (mkLiteral ''production'')
               (mkMember (mkComputed (mkIdentifier ''process'') (mkIdentifier ''env'')) ''NODE_ENV''))
            (mkRequire ''a'') (mkRequire ''b'')) [] = Inr [''a'']
   \<and> findDependencies Acorn
         (mkIf (mkBinary ''!=='' (envLookup ''KEY'') (mkLiteral ''production''))
               (mkExprStmt (mkRequire ''x'')) (mkExprStmt (mkRequire ''y''))) [] = Inr [''x'', ''y'']
   \<and> findDependencies Oxc
         (mkIf (mkBinary ''!=='' (envLookup ''KEY'') (mkLiteral ''production''))
               (mkExprStmt (mkRequire ''x'')) (mkExprStmt (mkRequire ''y''))) [] = Inr [''x'', ''y'']
   \<and> findDependencies Acorn
         (mkIf (mkBinary ''!=='' nodeEnv (mkLiteral ''production''))
               (mkExprStmt (mkRequire ''x'')) (mkExprStmt (mkRequire ''y''))) [] = Inr [''y'']"
proof (intro conjI)
  show "isProcessEnvNodeEnv (envLookup ''NODE_ENV'')"
    by (simp add: envLookup_def mkComputed_def mk_defs isProcessEnvNodeEnv_def propName_def)
qed (simp_all add: fd_eval envLookup_def mkComputed_def)

lemma extractString_None: "notStringLiteral v n \<Longrightarrow> extractString v n = None"
  using extractString_iff [of v n] by (cases "extractString v n") (auto simp: notStringLiteral_def)

lemma pruneBranch_other:
  "field (JObj fs) ''type'' \<noteq> JStr ''IfStatement'' \<Longrightarrow>
   field (JObj fs) ''type'' \<noteq> JStr ''ConditionalExpression'' \<Longrightarrow>
   pruneBranch v (JObj fs) = Inr NotPruned"
  by (simp add: pruneBranch_def del: field.simps)

lemma extractDeps_nonliteral:
  assumes "field n ''type'' \<in> {JStr ''ImportDeclaration'', JStr ''ExportNamedDeclaration'',
                                 JStr ''ExportAllDeclaration'', JStr ''ImportExpression''}
             \<and> notStringLiteral v (field n ''source'')
           \<or> field n ''type'' = JStr ''CallExpression''
             \<and> (case firstArgument n of None \<Rightarrow> True | Some a \<Rightarrow> notStringLiteral v a)"
  shows "extractDeps v n deps = deps"
  using assms
  by (auto simp: extractDeps_def Let_def extractString_None split: option.splits simp del: field.simps)

lemma add_if_val_elem: "s \<in> set (add_if_val x deps) \<Longrightarrow> s \<in> set deps \<or> x = Some s"
  by (auto simp: add_if_val_def set_setAdd split: option.splits if_splits)

lemma extractDeps_sources:
  assumes "s \<in> set (extractDeps v n deps)"
  shows "s \<in> set deps \<or> isStringLiteral v (field n ''source'') s
         \<or> (\<exists>a. firstArgument n = Some a \<and> isStringLiteral v a s)"
proof -
  from extractDeps_single [of v n] obtain x where x: "\<And>d. extractDeps v n d = add_if_val x d"
    by blast
  show ?thesis
  proof (cases "s \<in> set deps")
    case True
    then show ?thesis by simp
  next
    case False
    with assms x have "x = Some s" by (auto dest: add_if_val_elem)
    with x have "extractDeps v n [] = (if s = [] then [] else [s])"
      by (simp add: add_if_val_def setAdd_def)
    moreover from False assms x \<open>x = Some s\<close> have "s \<noteq> []"
      by (auto simp: add_if_val_def split: if_splits)
    ultimately have e: "extractDeps v n [] = [s]" by simp
    then show ?thesis
      unfolding extractDeps_def Let_def
      by (auto simp: extractString_iff add_if_val_def setAdd_def
               simp del: field.simps split: if_splits option.splits)
  qed
qed

text \<open>
  C10. Only string literals are collected. A static import or re-export, or a dynamic import,
  whose source is not a string literal, and a call of \<^verbatim>\<open>require\<close> whose first argument is
  not a string literal or that has no argument, add nothing at their node and raise nothing
  there: the traversal of the node is the traversal of its children with the set unchanged.
  Whatever the extraction at a node does add is the value of a string literal, the node's
  source or its first argument.
\<close>

theorem only_string_literal_specifiers:
  "(field (JObj fs) ''type'' \<in> {JStr ''ImportDeclaration'', JStr ''ExportNamedDeclaration'',
                                 JStr ''ExportAllDeclaration'', JStr ''ImportExpression''}
      \<and> notStringLiteral v (field (JObj fs) ''source'')
    \<or> field (JObj fs) ''type'' = JStr ''CallExpression''
      \<and> isRequireCallee (field (JObj fs) ''callee'')
      \<and> (case firstArgument (JObj fs) of None \<Rightarrow> True | Some a \<Rightarrow> notStringLiteral v a)
    \<longrightarrow> extractDeps v (JObj fs) deps = deps
      \<and> findDependencies v (JObj fs) deps = findDependencies_keys v (keysToVisit v) fs deps)
   \<and> (s \<in> set (extractDeps v (JObj fs) deps) \<longrightarrow>
        s \<in> set deps \<or> isStringLiteral v (field (JObj fs) ''source'') s
        \<or> (\<exists>a. firstArgument (JObj fs) = Some a \<and> isStringLiteral v a s))"
proof (intro conjI impI)
  assume a: "field (JObj fs) ''type'' \<in> {JStr ''ImportDeclaration'', JStr ''ExportNamedDeclaration'',
                                 JStr ''ExportAllDeclaration'', JStr ''ImportExpression''}
      \<and> notStringLiteral v (field (JObj fs) ''source'')
    \<or> field (JObj fs) ''type'' = JStr ''CallExpression''
      \<and> isRequireCallee (field (JObj fs) ''callee'')
      \<and> (case firstArgument (JObj fs) of None \<Rightarrow> True | Some a \<Rightarrow> notStringLiteral v a)"
  then show e: "extractDeps v (JObj fs) deps = deps"
    by (intro extractDeps_nonliteral) blast
  from a have "pruneBranch v (JObj fs) = Inr NotPruned"
    by (intro pruneBranch_other) auto
  with e show "findDependencies v (JObj fs) deps = findDependencies_keys v (keysToVisit v) fs deps"
    by simp
next
  assume "s \<in> set (extractDeps v (JObj fs) deps)"
  then show "s \<in> set deps \<or> isStringLiteral v (field (JObj fs) ''source'') s
        \<or> (\<exists>a. firstArgument (JObj fs) = Some a \<and> isStringLiteral v a s)"
    by (rule extractDeps_sources)
qed

text \<open>
  \<^verbatim>\<open>require(name)\<close> and \<^verbatim>\<open>require()\<close> record nothing and the traversal goes on;
  \<^verbatim>\<open>require("a")\<close> records the literal.
\<close>

theorem only_string_literal_specifiers_witness:
  "findDependencies Acorn (mkCall (mkIdentifier ''require'') [mkIdentifier ''name'']) [''x''] = Inr [''x'']
   \<and> findDependencies Oxc (mkCall (mkIdentifier ''require'') []) [''x''] = Inr [''x'']
   \<and> extractDeps Acorn (mkRequire ''a'') [] = [''a'']
   \<and> isStringLiteral Acorn (mkLiteral ''a'') ''a''"
proof (intro conjI)
  let ?fs = "[(''type'', JStr ''CallExpression''), (''callee'', mkIdentifier ''require''),
              (''arguments'', JArr [mkIdentifier ''name''])]"
  have "notStringLiteral Acorn (mkIdentifier ''name'')"
    by (simp add: notStringLiteral_def isStringLiteral_def stringLiteralType_def mkIdentifier_def)
  then have "field (JObj ?fs) ''type'' = JStr ''CallExpression''
      \<and> isRequireCallee (field (JObj ?fs) ''callee'')
      \<and> (case firstArgument (JObj ?fs) of None \<Rightarrow> True | Some a \<Rightarrow> notStringLiteral Acorn a)"
    by (simp add: isRequireCallee_def firstArgument_def mkIdentifier_def)
  with only_string_literal_specifiers [of ?fs Acorn "[''x'']"]
  have "findDependencies Acorn (JObj ?fs) [''x''] = findDependencies_keys Acorn (keysToVisit Acorn) ?fs [''x'']"
    by blast
  also have "\<dots> = Inr [''x'']"
    by (simp add: fd_eval)
  finally show "findDependencies Acorn (mkCall (mkIdentifier ''require'') [mkIdentifier ''name'']) [''x''] = Inr [''x'']"
    by (simp add: mkCall_def)
next
  let ?fs = "[(''type'', JStr ''CallExpression''), (''callee'', mkIdentifier ''require''),
              (''arguments'', JArr [])]"
  have "field (JObj ?fs) ''type'' = JStr ''CallExpression''
      \<and> isRequireCallee (field (JObj ?fs) ''callee'')
      \<and> (case firstArgument (JObj ?fs) of None \<Rightarrow> True | Some a \<Rightarrow> notStringLiteral Oxc a)"
    by (simp add: isRequireCallee_def firstArgument_def mkIdentifier_def)
  with only_string_literal_specifiers [of ?fs Oxc "[''x'']"]
  have "findDependencies Oxc (JObj ?fs) [''x''] = findDependencies_keys Oxc (keysToVisit Oxc) ?fs [''x'']"
    by blast
  also have "\<dots> = Inr [''x'']"
    by (simp add: fd_eval)
  finally show "findDependencies Oxc (mkCall (mkIdentifier ''require'') []) [''x''] = Inr [''x'']"
    by (simp add: mkCall_def)
next
  show "extractDeps Acorn (mkRequire ''a'') [] = [''a'']"
    by (simp add: fd_eval)
next
  show "isStringLiteral Acorn (mkLiteral ''a'') ''a''"
    by (rule lit_ok)
qed

subsection \<open>Specifier resolution\<close>

lemma resolveUrl_builtin_Oxc:
  "isBuiltin Oxc url \<Longrightarrow> resolveUrl w Oxc url baseUrl st = (Inr None, st)"
  by (simp add: resolveUrl_def resolveUrl_begin_def)

lemma resolveUrl_builtin_Acorn:
  "isBuiltin Acorn url \<Longrightarrow> \<not> startsWith url ''http'' \<Longrightarrow>
   resolveUrl w Acorn url baseUrl st = (Inr None, st)"
  by (simp add: resolveUrl_def resolveUrl_begin_def)

text \<open>
  C5. A builtin specifier is not resolved and never throws. The later version tests for a
  builtin first, and there this holds for every builtin (\<open>resolveUrl_builtin_Oxc\<close>). In
  \<^verbatim>\<open>src/cli.js\<close> the test for an absolute URL, \<^verbatim>\<open>url.startsWith('http')\<close>, comes first: the
  builtins \<^verbatim>\<open>http\<close> and \<^verbatim>\<open>https\<close>, both members of its own builtin set, are returned as
  candidates.
\<close>

theorem builtin_http_is_resolved:
  "isBuiltin Acorn ''http'' \<and> resolveUrl w Acorn ''http'' baseUrl st = (Inr (Some [''http'']), st)
   \<and> isBuiltin Acorn ''https'' \<and> resolveUrl w Acorn ''https'' baseUrl st = (Inr (Some [''https'']), st)"
  by (simp add: isBuiltin_def NODE_BUILTINS_def resolveUrl_def resolveUrl_begin_def startsWith_def)

lemma firstCondition_find:
  "firstCondition cs fs =
     (case find (\<lambda>c. map_of fs c \<noteq> None) cs of None \<Rightarrow> None | Some c \<Rightarrow> map_of fs c)"
  by (induction cs) (auto split: option.splits)

lemma resolveExports_priority:
  "resolveExports (JObj fs) =
     (case find (\<lambda>c. map_of fs c \<noteq> None) conditions of
        None \<Rightarrow> None
      | Some c \<Rightarrow> resolveExports (field (JObj fs) c))"
proof (cases "find (\<lambda>c. map_of fs c \<noteq> None) conditions")
  case None
  then show ?thesis by (simp add: firstCondition_find)
next
  case (Some c)
  then have "map_of fs c \<noteq> None" by (auto dest: find_Some_iff [THEN iffD1])
  with Some show ?thesis by (auto simp: firstCondition_find)
qed

lemma resolveExports_falsy: "\<not> truthy x \<Longrightarrow> resolveExports x = None \<or> resolveExports x = Some []"
  by (cases x) auto

lemma field_falsy: "\<not> truthy x \<Longrightarrow> field x k = JUndef"
  by (cases x) auto

lemma subpath_entries:
  assumes "subpath \<noteq> []"
  shows "packageEntries pkgObj subpath =
           (case resolveExports (exportTarget (field pkgObj ''exports'') subpath) of
              None \<Rightarrow> []
            | Some e \<Rightarrow> if e = [] then [] else [JStr e]) @ [JStr subpath]"
proof (cases "truthy (field pkgObj ''exports'')")
  case False
  then have "exportTarget (field pkgObj ''exports'') subpath = JUndef"
    by (simp add: exportTarget_def field_falsy del: field.simps)
  with False assms show ?thesis by (simp add: packageEntries_def del: field.simps)
next
  case True
  let ?t = "exportTarget (field pkgObj ''exports'') subpath"
  show ?thesis
  proof (cases "truthy ?t")
    case False
    with resolveExports_falsy [of ?t] True assms show ?thesis
      by (auto simp: packageEntries_def exportTarget_def orElse_def Let_def simp del: field.simps)
  next
    case t: True
    with True assms show ?thesis
      by (auto simp: packageEntries_def exportTarget_def orElse_def Let_def pushIf_def strOrNull_def
               simp del: field.simps split: option.splits)
  qed
qed

lemma entryUrls_last:
  "entryUrls w base es = Inr urls \<Longrightarrow> es \<noteq> [] \<Longrightarrow>
     urls \<noteq> [] \<and> (\<exists>s. last es = JStr s \<and> urlJoin w (stripDotSlash s) base = Some (last urls))"
proof (induction w base es arbitrary: urls rule: entryUrls.induct)
  case (2 w pkgBase entry es)
  from "2.prems" obtain href hrefs where h: "urlJoin w (stripDotSlash entry) pkgBase = Some href"
    "entryUrls w pkgBase es = Inr hrefs" "urls = href # hrefs"
    by (auto split: option.splits sum.splits)
  show ?case
  proof (cases es)
    case Nil
    with h show ?thesis by simp
  next
    case (Cons a as)
    with "2.IH" [OF h(1) h(2)] h(3) show ?thesis by simp
  qed
qed auto

lemma newSet_two: "newSet [a, b] = (if a = b then [a] else [a, b])"
  by (simp add: newSet_def setAdd_def)

lemma newSet_one: "newSet [a] = [a]"
  by (simp add: newSet_def setAdd_def)

lemma filter_truthy_strs:
  "filter truthy (case r of None \<Rightarrow> [] | Some e \<Rightarrow> if e = [] then [] else [JStr e]) =
     (case r of None \<Rightarrow> [] | Some e \<Rightarrow> if e = [] then [] else [JStr e])"
  by (auto split: option.splits)

text \<open>
  C6. For a bare specifier with a subpath and a manifest that is not null, the candidates
  are the joins of: the export found at \<^verbatim>\<open>"./<subpath>"\<close> (or \<^verbatim>\<open>"./<subpath>.js"\<close>), resolved
  through condition objects, when there is one; then the raw subpath. A string export
  resolves to itself, and a condition object to the resolution of its first condition present
  in the order production, node, require, default, import, browser. The last candidate is
  always the join of the raw subpath.
\<close>

theorem subpath_candidates:
  assumes "subpath = snd (parseBareSpecifier specifier)" and "subpath \<noteq> []"
    and "fetchedManifest specifier res = (pkgObj, pkgBase)" and "\<not> nullish pkgObj"
  shows "packageUrls w specifier res =
           entryUrls w pkgBase
             (newSet ((case resolveExports (exportTarget (field pkgObj ''exports'') subpath) of
                         None \<Rightarrow> []
                       | Some e \<Rightarrow> if e = [] then [] else [JStr e]) @ [JStr subpath]))
       \<and> resolveExports (JStr e) = Some e
       \<and> resolveExports (JObj fs) =
           (case find (\<lambda>c. map_of fs c \<noteq> None)
                   [''production'', ''node'', ''require'', ''default'', ''import'', ''browser''] of
              None \<Rightarrow> None
            | Some c \<Rightarrow> resolveExports (field (JObj fs) c))
       \<and> (packageUrls w specifier res = Inr urls \<longrightarrow>
            urls \<noteq> [] \<and> urlJoin w (stripDotSlash subpath) pkgBase = Some (last urls))"
proof -
  let ?exported = "case resolveExports (exportTarget (field pkgObj ''exports'') subpath) of
                         None \<Rightarrow> []
                       | Some e \<Rightarrow> if e = [] then [] else [JStr e]"
  have eq: "packageUrls w specifier res = entryUrls w pkgBase (newSet (?exported @ [JStr subpath]))"
    using assms
    by (simp add: packageUrls_def subpath_entries filter_truthy_strs del: field.simps)
  have l: "newSet (?exported @ [JStr subpath]) \<noteq> [] \<and> last (newSet (?exported @ [JStr subpath])) = JStr subpath"
    by (auto simp: newSet_two newSet_one split: option.splits)
  have "urls \<noteq> [] \<and> urlJoin w (stripDotSlash subpath) pkgBase = Some (last urls)"
    if "packageUrls w specifier res = Inr urls"
    using entryUrls_last [of w pkgBase "newSet (?exported @ [JStr subpath])" urls] that eq l
    by auto
  with eq show ?thesis
    using resolveExports_priority [of fs] by (simp add: conditions_def del: field.simps)
qed

text \<open>
  The example of the specification: \<^verbatim>\<open>lodash-es/isEqual\<close> against the manifest
  \<^verbatim>\<open>{"exports": {"./isEqual": "./isEqual.js"}}\<close>. (The manifest has no name and no version,
  so the base is built from \<^verbatim>\<open>undefined@undefined\<close>.)
\<close>

theorem subpath_candidates_witness:
  "packageUrls offline ''lodash-es/isEqual''
     (Some (jsonResponse ''https://cdn.jsdelivr.net/npm/lodash-es/package.json'' lodashManifest)) =
   Inr [''https://cdn.jsdelivr.net/npm/undefined@undefined/isEqual.js'',
        ''https://cdn.jsdelivr.net/npm/undefined@undefined/isEqual'']"
proof -
  let ?res = "Some (jsonResponse ''https://cdn.jsdelivr.net/npm/lodash-es/package.json'' lodashManifest)"
  have sub: "''isEqual'' = snd (parseBareSpecifier ''lodash-es/isEqual'')"
    by (simp add: parseBareSpecifier_def startsWith_def)
  have man: "fetchedManifest ''lodash-es/isEqual'' ?res =
               (lodashManifest, ''https://cdn.jsdelivr.net/npm/undefined@undefined/'')"
    by (simp add: fetchedManifest_def jsonResponse_def lodashManifest_def nullish_def
                  JSDELIVR_BASE_def parseBareSpecifier_def startsWith_def)
  have nn: "\<not> nullish lodashManifest" "''isEqual'' \<noteq> []"
    by (simp_all add: nullish_def lodashManifest_def)
  from subpath_candidates [OF sub nn(2) man nn(1), of offline]
  have "packageUrls offline ''lodash-es/isEqual'' ?res =
          entryUrls offline ''https://cdn.jsdelivr.net/npm/undefined@undefined/''
             (newSet ((case resolveExports (exportTarget (field lodashManifest ''exports'') ''isEqual'') of
                         None \<Rightarrow> []
                       | Some e \<Rightarrow> if e = [] then [] else [JStr e]) @ [JStr ''isEqual'']))"
    by blast
  also have "\<dots> = Inr [''https://cdn.jsdelivr.net/npm/undefined@undefined/isEqual.js'',
        ''https://cdn.jsdelivr.net/npm/undefined@undefined/isEqual'']"
    by (simp add: lodashManifest_def exportTarget_def newSet_def setAdd_def offline_def
                  stripDotSlash_def startsWith_def)
  finally show ?thesis .
qed

text \<open>
  C4, as stated: the manifest is fetched at most once per package name. The cache is keyed by
  the whole specifier, so two specifiers of the package \<^verbatim>\<open>lodash-es\<close> that differ in their
  subpath fetch its manifest twice.
\<close>

theorem manifest_fetched_per_specifier:
  "fst (parseBareSpecifier ''lodash-es/isEqual'') = ''lodash-es''
   \<and> fst (parseBareSpecifier ''lodash-es/isArray'') = ''lodash-es''
   \<and> requests (snd (resolvePackageUrl lodashWorld ''lodash-es/isArray''
                 (snd (resolvePackageUrl lodashWorld ''lodash-es/isEqual'' noResolver)))) =
       [''https://cdn.jsdelivr.net/npm/lodash-es/package.json'',
        ''https://cdn.jsdelivr.net/npm/lodash-es/package.json'']"
  by (simp add: parseBareSpecifier_def startsWith_def resolvePackageUrl_def
        resolvePackageUrl_begin_def resolvePackageUrl_end_def noResolver_def manifestUrl_def
        JSDELIVR_BASE_def packageUrls_def fetchedManifest_def lodashWorld_def offline_def
        jsonResponse_def lodashManifest_def nullish_def packageEntries_def orElse_def pushIf_def
        strOrNull_def newSet_def setAdd_def stripDotSlash_def conditions_def
        split: sum.splits)

text \<open>
  C4, amended: resolution results are cached by specifier. A specifier found in the cache is
  answered from it with no request; one that is not issues exactly one manifest request; and
  once a resolution has returned, resolving the same specifier again returns the same
  candidates and changes nothing, so issues no request.
\<close>

theorem cache_by_specifier:
  "(pkgResolveCache st specifier = Some urls \<longrightarrow> resolvePackageUrl w specifier st = (Inr urls, st))
   \<and> (pkgResolveCache st specifier = None \<longrightarrow>
        requests (snd (resolvePackageUrl w specifier st)) = requests st @ [manifestUrl specifier])
   \<and> (resolvePackageUrl w specifier st = (Inr urls, st') \<longrightarrow>
        pkgResolveCache st' specifier = Some urls \<and>
        resolvePackageUrl w specifier st' = (Inr urls, st'))"
  by (auto simp: resolvePackageUrl_def resolvePackageUrl_begin_def resolvePackageUrl_end_def
           split: option.splits sum.splits)

theorem cache_by_specifier_witness:
  "resolvePackageUrl lodashWorld ''lodash-es/isEqual''
     (snd (resolvePackageUrl lodashWorld ''lodash-es/isEqual'' noResolver)) =
   (Inr [''https://cdn.jsdelivr.net/npm/undefined@undefined/isEqual.js'',
         ''https://cdn.jsdelivr.net/npm/undefined@undefined/isEqual''],
    snd (resolvePackageUrl lodashWorld ''lodash-es/isEqual'' noResolver))
   \<and> requests (snd (resolvePackageUrl lodashWorld ''lodash-es/isEqual'' noResolver)) =
       [''https://cdn.jsdelivr.net/npm/lodash-es/package.json'']"
proof -
  let ?urls = "[''https://cdn.jsdelivr.net/npm/undefined@undefined/isEqual.js'',
         ''https://cdn.jsdelivr.net/npm/undefined@undefined/isEqual'']"
  have w: "urlJoin lodashWorld = urlJoin offline"
    by (simp add: lodashWorld_def)
  have p: "packageUrls lodashWorld ''lodash-es/isEqual''
     (Some (jsonResponse ''https://cdn.jsdelivr.net/npm/lodash-es/package.json'' lodashManifest)) = Inr ?urls"
    by (simp add: packageUrls_def fetchedManifest_def lodashWorld_def offline_def
        jsonResponse_def lodashManifest_def nullish_def packageEntries_def orElse_def pushIf_def
        strOrNull_def newSet_def setAdd_def stripDotSlash_def conditions_def JSDELIVR_BASE_def
        parseBareSpecifier_def startsWith_def)
  have m: "manifestUrl ''lodash-es/isEqual'' = ''https://cdn.jsdelivr.net/npm/lodash-es/package.json''"
    by (simp add: manifestUrl_def JSDELIVR_BASE_def parseBareSpecifier_def startsWith_def)
  have n: "net lodashWorld ''https://cdn.jsdelivr.net/npm/lodash-es/package.json'' =
      Some (jsonResponse ''https://cdn.jsdelivr.net/npm/lodash-es/package.json'' lodashManifest)"
    by (simp add: lodashWorld_def)
  have r: "resolvePackageUrl lodashWorld ''lodash-es/isEqual'' noResolver =
        (Inr ?urls, snd (resolvePackageUrl lodashWorld ''lodash-es/isEqual'' noResolver))"
    by (simp add: resolvePackageUrl_def resolvePackageUrl_begin_def resolvePackageUrl_end_def
          noResolver_def m n p)
  have q: "requests (snd (resolvePackageUrl lodashWorld ''lodash-es/isEqual'' noResolver)) =
       [''https://cdn.jsdelivr.net/npm/lodash-es/package.json'']"
    using cache_by_specifier [of noResolver "''lodash-es/isEqual''" ?urls lodashWorld]
    by (simp add: noResolver_def m)
  from cache_by_specifier [of noResolver "''lodash-es/isEqual''" ?urls lodashWorld
         "snd (resolvePackageUrl lodashWorld ''lodash-es/isEqual'' noResolver)"] r q
  show ?thesis by blast
qed

subsection \<open>The fetcher\<close>

lemma firstResponse_append:
  "firstResponse w (xs @ ys) =
     (case firstResponse w xs of Some r \<Rightarrow> Some r | None \<Rightarrow> firstResponse w ys)"
  by (induction xs) (auto split: option.splits)

lemma tried_append:
  "tried w (xs @ ys) =
     (case firstResponse w xs of Some r \<Rightarrow> tried w xs | None \<Rightarrow> xs @ tried w ys)"
  by (induction xs) (auto split: option.splits)

lemma tried_all: "firstResponse w xs = None \<Longrightarrow> tried w xs = xs"
  by (induction xs) (auto split: option.splits)

lemma attemptUrl_attempts:
  "attemptUrl w url reqs = (firstResponse w (attempts url), reqs @ tried w (attempts url))"
  by (auto simp: attemptUrl_def tryFetch_def retrySuffixes_def attempts_def split: option.splits)

lemma fetchRemote_attempts:
  "fetchRemote w first urls reqs =
     ((case firstResponse w (concat (map attempts urls)) of
         None \<Rightarrow> Inl (FetchFailed first)
       | Some r \<Rightarrow> deliver r),
      reqs @ tried w (concat (map attempts urls)))"
proof (induction urls arbitrary: reqs)
  case Nil
  then show ?case by simp
next
  case (Cons url urls)
  show ?case
  proof (cases "firstResponse w (attempts url)")
    case None
    with Cons show ?thesis
      by (simp add: attemptUrl_attempts firstResponse_append tried_append tried_all)
  next
    case (Some r)
    then show ?thesis
      by (simp add: attemptUrl_attempts firstResponse_append tried_append)
  qed
qed

lemma fetchLocal_find:
  "fetchLocal w p exts =
     (case find (\<lambda>ext. isFile w (p @ ext)) exts of
        None \<Rightarrow> Inl (LocalNotFound p)
      | Some ext \<Rightarrow>
          (case readFile w (p @ ext) of
             Some text \<Rightarrow> Inr (Some \<lparr>code = text, finalUrl = p @ ext, isLocal = True\<rparr>)
           | None \<Rightarrow> Inr None))"
  by (induction exts) (auto simp: Let_def)

text \<open>
  C7, as stated: the fetcher fails only after every candidate is exhausted. In the later
  version a first candidate that is not an \<^verbatim>\<open>http\<close> URL sends the whole call to the file
  system, which looks at that candidate only: the call fails although the second candidate
  would have answered, and no request is made.
\<close>

theorem local_first_candidate_only:
  "fetchFile fileUrlWorld Oxc [''file:///a.js'', ''https://cdn.jsdelivr.net/npm/p@1.0.0/index.js''] =
     (Inl (LocalNotFound ''file:///a.js''), [])
   \<and> net fileUrlWorld ''https://cdn.jsdelivr.net/npm/p@1.0.0/index.js'' =
       Some (textResponse ''https://cdn.jsdelivr.net/npm/p@1.0.0/index.js'' ''export default 1'')"
  by (simp add: fetchFile_def isLocalFile_def startsWith_def extensions_def fileUrlWorld_def offline_def)

text \<open>
  C7, amended. In \<^verbatim>\<open>src/cli.js\<close>, and in the later version when the first candidate is an
  \<^verbatim>\<open>http\<close> URL: the requests made are the attempts of the candidates, in order, up to the
  first that succeeds; its body and its post-redirect location are the result (or the error
  of reading the body); the call fails with \<open>FetchFailed\<close> exactly when every attempt of
  every candidate has failed. In the later version when the first candidate is a local path:
  only that candidate is tried, with the six local suffixes, and no request is made.
\<close>

theorem fetch_in_order:
  "(v = Acorn \<or> (\<exists>u us. urls = u # us \<and> \<not> isLocalFile u) \<longrightarrow>
      fetchFile w v urls =
        ((case firstResponse w (concat (map attempts urls)) of
            None \<Rightarrow> Inl (FetchFailed (urls0 urls))
          | Some r \<Rightarrow> deliver r),
         tried w (concat (map attempts urls))))
   \<and> (v = Oxc \<and> urls = u # us \<and> isLocalFile u \<longrightarrow>
      fetchFile w v urls =
        ((case find (\<lambda>ext. isFile w (u @ ext)) ['''', ''.js'', ''.mjs'', ''.cjs'', ''.ts'', ''/index.js''] of
            None \<Rightarrow> Inl (LocalNotFound u)
          | Some ext \<Rightarrow>
              (case readFile w (u @ ext) of
                 Some text \<Rightarrow> Inr (Some \<lparr>code = text, finalUrl = u @ ext, isLocal = True\<rparr>)
               | None \<Rightarrow> Inr None)),
         []))"
proof (intro conjI impI)
  assume a: "v = Acorn \<or> (\<exists>u us. urls = u # us \<and> \<not> isLocalFile u)"
  show "fetchFile w v urls =
        ((case firstResponse w (concat (map attempts urls)) of
            None \<Rightarrow> Inl (FetchFailed (urls0 urls))
          | Some r \<Rightarrow> deliver r),
         tried w (concat (map attempts urls)))"
  proof (cases v)
    case Acorn
    then show ?thesis by (simp add: fetchFile_def fetchRemote_attempts)
  next
    case Oxc
    with a obtain u' us' where u: "urls = u' # us'" "\<not> isLocalFile u'" by auto
    show ?thesis unfolding u(1) using Oxc u(2) by (simp add: fetchFile_def fetchRemote_attempts)
  qed
next
  assume "v = Oxc \<and> urls = u # us \<and> isLocalFile u"
  then show "fetchFile w v urls =
        ((case find (\<lambda>ext. isFile w (u @ ext)) ['''', ''.js'', ''.mjs'', ''.cjs'', ''.ts'', ''/index.js''] of
            None \<Rightarrow> Inl (LocalNotFound u)
          | Some ext \<Rightarrow>
              (case readFile w (u @ ext) of
                 Some text \<Rightarrow> Inr (Some \<lparr>code = text, finalUrl = u @ ext, isLocal = True\<rparr>)
               | None \<Rightarrow> Inr None)),
         [])"
    using fetchLocal_find [of w u extensions]
    by (simp add: fetchFile_def extensions_def)
qed

theorem fetch_in_order_witness:
  "fetchFile redirectWorld Acorn [''https://h/z.ts'', ''https://h/a''] =
     (Inr (Some \<lparr>code = ''x'', finalUrl = ''https://h/v2/a.js'', isLocal = False\<rparr>),
      [''https://h/z.ts'', ''https://h/a'', ''https://h/a.js''])
   \<and> fetchFile redirectWorld Oxc [''https://h/b'', ''https://h/c.mjs''] =
     (Inl (FetchFailed ''https://h/b''),
      [''https://h/b'', ''https://h/b.js'', ''https://h/b.mjs'', ''https://h/b/index.js'', ''https://h/c.mjs''])
   \<and> fetchFile redirectWorld Oxc [''/src/a'', ''https://h/a''] = (Inl (LocalNotFound ''/src/a''), [])"
proof (intro conjI)
  have "Acorn = Acorn \<or> (\<exists>u us. [''https://h/z.ts'', ''https://h/a''] = u # us \<and> \<not> isLocalFile u)"
    by simp
  with fetch_in_order [where v = Acorn and urls = "[''https://h/z.ts'', ''https://h/a'']" and w = redirectWorld]
  have "fetchFile redirectWorld Acorn [''https://h/z.ts'', ''https://h/a''] =
        ((case firstResponse redirectWorld (concat (map attempts [''https://h/z.ts'', ''https://h/a''])) of
            None \<Rightarrow> Inl (FetchFailed (urls0 [''https://h/z.ts'', ''https://h/a'']))
          | Some r \<Rightarrow> deliver r),
         tried redirectWorld (concat (map attempts [''https://h/z.ts'', ''https://h/a''])))"
    by blast
  also have "\<dots> = (Inr (Some \<lparr>code = ''x'', finalUrl = ''https://h/v2/a.js'', isLocal = False\<rparr>),
      [''https://h/z.ts'', ''https://h/a'', ''https://h/a.js''])"
    by (simp add: attempts_def looksLikeSource_def endsWith_def redirectWorld_def offline_def
                  textResponse_def deliver_def)
  finally show "fetchFile redirectWorld Acorn [''https://h/z.ts'', ''https://h/a''] =
     (Inr (Some \<lparr>code = ''x'', finalUrl = ''https://h/v2/a.js'', isLocal = False\<rparr>),
      [''https://h/z.ts'', ''https://h/a'', ''https://h/a.js''])" .
next
  have "\<not> isLocalFile ''https://h/b''" by (simp add: isLocalFile_def startsWith_def)
  then have "Oxc = Acorn \<or> (\<exists>u us. [''https://h/b'', ''https://h/c.mjs''] = u # us \<and> \<not> isLocalFile u)"
    by simp
  with fetch_in_order [where v = Oxc and urls = "[''https://h/b'', ''https://h/c.mjs'']" and w = redirectWorld]
  have "fetchFile redirectWorld Oxc [''https://h/b'', ''https://h/c.mjs''] =
        ((case firstResponse redirectWorld (concat (map attempts [''https://h/b'', ''https://h/c.mjs''])) of
            None \<Rightarrow> Inl (FetchFailed (urls0 [''https://h/b'', ''https://h/c.mjs'']))
          | Some r \<Rightarrow> deliver r),
         tried redirectWorld (concat (map attempts [''https://h/b'', ''https://h/c.mjs''])))"
    by blast
  also have "\<dots> = (Inl (FetchFailed ''https://h/b''),
      [''https://h/b'', ''https://h/b.js'', ''https://h/b.mjs'', ''https://h/b/index.js'', ''https://h/c.mjs''])"
    by (simp add: attempts_def looksLikeSource_def endsWith_def redirectWorld_def offline_def urls0_def)
  finally show "fetchFile redirectWorld Oxc [''https://h/b'', ''https://h/c.mjs''] =
     (Inl (FetchFailed ''https://h/b''),
      [''https://h/b'', ''https://h/b.js'', ''https://h/b.mjs'', ''https://h/b/index.js'', ''https://h/c.mjs''])" .
next
  have "Oxc = Oxc \<and> [''/src/a'', ''https://h/a''] = ''/src/a'' # [''https://h/a''] \<and> isLocalFile ''/src/a''"
    by (simp add: isLocalFile_def startsWith_def)
  with fetch_in_order [where v = Oxc and urls = "[''/src/a'', ''https://h/a'']" and u = "''/src/a''"
                        and us = "[''https://h/a'']" and w = redirectWorld]
  have "fetchFile redirectWorld Oxc [''/src/a'', ''https://h/a''] =
        ((case find (\<lambda>ext. isFile redirectWorld (''/src/a'' @ ext)) ['''', ''.js'', ''.mjs'', ''.cjs'', ''.ts'', ''/index.js''] of
            None \<Rightarrow> Inl (LocalNotFound ''/src/a'')
          | Some ext \<Rightarrow>
              (case readFile redirectWorld (''/src/a'' @ ext) of
                 Some text \<Rightarrow> Inr (Some \<lparr>code = text, finalUrl = ''/src/a'' @ ext, isLocal = True\<rparr>)
               | None \<Rightarrow> Inr None)),
         [])"
    by blast
  also have "\<dots> = (Inl (LocalNotFound ''/src/a''), [])"
    by (simp add: redirectWorld_def offline_def)
  finally show "fetchFile redirectWorld Oxc [''/src/a'', ''https://h/a''] = (Inl (LocalNotFound ''/src/a''), [])" .
qed

subsection \<open>The orchestrator\<close>

lemma resolvePackageUrl_begin_state:
  "resolvePackageUrl_begin specifier st = (r, st') \<Longrightarrow> \<exists>reqs. st' = st\<lparr>requests := reqs\<rparr>"
  by (auto simp: resolvePackageUrl_begin_def split: option.splits intro: exI [of _ "requests st"])

lemma resolveUrl_begin_state:
  "resolveUrl_begin w v url baseUrl st = (r, st') \<Longrightarrow> \<exists>reqs. st' = st\<lparr>requests := reqs\<rparr>"
  by (cases v)
     (auto simp: resolveUrl_begin_def split: if_splits option.splits prod.splits
           dest: resolvePackageUrl_begin_state intro: exI [of _ "requests st"])

lemma resolveUrl_end_state:
  "resolveUrl_end w url st = (r, st') \<Longrightarrow> \<exists>c. st' = st\<lparr>pkgResolveCache := c\<rparr>"
  by (auto simp: resolveUrl_end_def resolvePackageUrl_end_def split: sum.splits
           intro: exI [of _ "pkgResolveCache st"])

lemma enqueueFile_start_fields:
  "activeTasks (enqueueFile_start w v url baseUrl st) = activeTasks st + 1"
  "\<exists>t. tasks (enqueueFile_start w v url baseUrl st) = tasks st @ [t]"
  "onQueueEmpty (enqueueFile_start w v url baseUrl st) = onQueueEmpty st"
  "completions (enqueueFile_start w v url baseUrl st) = completions st"
  "parsedUrls (enqueueFile_start w v url baseUrl st) = parsedUrls st"
  "bundleParts (enqueueFile_start w v url baseUrl st) = bundleParts st"
  "bundledFrom (enqueueFile_start w v url baseUrl st) = bundledFrom st"
  "parsedLog (enqueueFile_start w v url baseUrl st) = parsedLog st"
  "console (enqueueFile_start w v url baseUrl st) = console st"
  "hasError (enqueueFile_start w v url baseUrl st) = hasError st"
proof -
  obtain r st' where p: "resolveUrl_begin w v url baseUrl (st\<lparr>activeTasks := activeTasks st + 1\<rparr>) = (r, st')"
    by (cases "resolveUrl_begin w v url baseUrl (st\<lparr>activeTasks := activeTasks st + 1\<rparr>)")
  from resolveUrl_begin_state [OF p] obtain reqs where
    st': "st' = st\<lparr>activeTasks := activeTasks st + 1, requests := reqs\<rparr>" by auto
  show "activeTasks (enqueueFile_start w v url baseUrl st) = activeTasks st + 1"
    "\<exists>t. tasks (enqueueFile_start w v url baseUrl st) = tasks st @ [t]"
    "onQueueEmpty (enqueueFile_start w v url baseUrl st) = onQueueEmpty st"
    "completions (enqueueFile_start w v url baseUrl st) = completions st"
    "parsedUrls (enqueueFile_start w v url baseUrl st) = parsedUrls st"
    "bundleParts (enqueueFile_start w v url baseUrl st) = bundleParts st"
    "bundledFrom (enqueueFile_start w v url baseUrl st) = bundledFrom st"
    "parsedLog (enqueueFile_start w v url baseUrl st) = parsedLog st"
    "console (enqueueFile_start w v url baseUrl st) = console st"
    "hasError (enqueueFile_start w v url baseUrl st) = hasError st"
    using p st' by (cases r; simp add: enqueueFile_start_def)+
qed

lemma running_start: "running st \<Longrightarrow> running (enqueueFile_start w v url baseUrl st)"
  using enqueueFile_start_fields [of w v url baseUrl st] by (auto simp: running_def)

lemma running_enqueueAll: "running st \<Longrightarrow> running (enqueueAll w v deps base st)"
  unfolding enqueueAll_def by (induction deps arbitrary: st) (auto intro: running_start)

lemma balanced_finally: "running st \<Longrightarrow> balanced (enqueueFile_finally st)"
  by (auto simp: running_def balanced_def enqueueFile_finally_def Let_def)

lemma running_console [simp]: "running (st\<lparr>console := c\<rparr>) = running st"
  by (simp add: running_def)

lemma running_hasError [simp]: "running (st\<lparr>hasError := c\<rparr>) = running st"
  by (simp add: running_def)

lemma running_requests [simp]: "running (st\<lparr>requests := c\<rparr>) = running st"
  by (simp add: running_def)

lemma running_cache [simp]: "running (st\<lparr>pkgResolveCache := c\<rparr>) = running st"
  by (simp add: running_def)

lemma balanced_suspend: "running st \<Longrightarrow> balanced (st\<lparr>tasks := tasks st @ [t]\<rparr>)"
  by (simp add: running_def balanced_def)

lemma balanced_catch: "running st \<Longrightarrow> balanced (enqueueFile_catch url st)"
  by (simp add: enqueueFile_catch_def balanced_finally)

lemma balanced_manifest: "running st \<Longrightarrow> balanced (enqueueFile_manifest w url st)"
proof (cases "resolveUrl_end w url st")
  case (Pair r st')
  assume "running st"
  with resolveUrl_end_state [OF Pair] have "running st'" by auto
  with Pair show ?thesis by (simp add: enqueueFile_manifest_def balanced_suspend)
qed

lemma balanced_resolved: "running st \<Longrightarrow> balanced (enqueueFile_resolved url r st)"
  by (auto simp: enqueueFile_resolved_def balanced_catch balanced_finally balanced_suspend
           split: sum.splits option.splits list.splits)

lemma balanced_fetch: "running st \<Longrightarrow> balanced (enqueueFile_fetch w v url p us st)"
proof (cases "fetchFile w v us")
  case (Pair res reqs)
  assume "running st"
  then have "balanced ((st\<lparr>requests := requests st @ reqs\<rparr>)\<lparr>tasks := tasks (st\<lparr>requests := requests st @ reqs\<rparr>) @ [AwaitFetched url p res]\<rparr>)"
    by (intro balanced_suspend) simp
  with Pair show ?thesis by (simp add: enqueueFile_fetch_def)
qed

lemma balanced_parsed: "running st \<Longrightarrow> balanced (enqueueFile_parsed w v url f ast st)"
  by (auto simp: enqueueFile_parsed_def balanced_catch balanced_finally running_enqueueAll
           split: sum.splits)

lemma balanced_fetched: "running st \<Longrightarrow> balanced (enqueueFile_fetched w v url p res st)"
  unfolding enqueueFile_fetched_def Let_def
  by (auto intro!: balanced_catch balanced_finally balanced_parsed
           split: sum.splits option.splits simp: running_def)

lemma balanced_resume: "running st \<Longrightarrow> balanced (resume w v t st)"
  by (cases t) (simp_all add: resume_def balanced_manifest balanced_resolved balanced_fetch balanced_fetched)

lemma balanced_step: "balanced st \<Longrightarrow> balanced (step w v i st)"
proof (cases "i < length (tasks st)")
  case False
  assume "balanced st"
  with False show ?thesis by (simp add: step_def)
next
  case True
  assume "balanced st"
  with True have "running (st\<lparr>tasks := take i (tasks st) @ drop (Suc i) (tasks st)\<rparr>)"
    by (auto simp: balanced_def running_def)
  with True show ?thesis by (simp add: step_def balanced_resume)
qed

lemma balanced_run_start: "balanced (run_start w v pkg)"
  using enqueueFile_start_fields [of w v pkg None "initial\<lparr>console := [LogAnalyzing pkg]\<rparr>"]
  by (auto simp: run_start_def Let_def balanced_def initial_def)

lemma balanced_fold: "balanced st \<Longrightarrow> balanced (fold (step w v) schedule st)"
  by (induction schedule arbitrary: st) (auto intro: balanced_step)

lemma balanced_run_steps: "balanced (run_steps w v pkg schedule)"
  by (simp add: run_steps_def balanced_fold balanced_run_start)

lemma enqueueFile_finally_fields [simp]:
  "tasks (enqueueFile_finally st) = tasks st"
  "activeTasks (enqueueFile_finally st) = activeTasks st - 1"
  "parsedUrls (enqueueFile_finally st) = parsedUrls st"
  "bundleParts (enqueueFile_finally st) = bundleParts st"
  "bundledFrom (enqueueFile_finally st) = bundledFrom st"
  "parsedLog (enqueueFile_finally st) = parsedLog st"
  "console (enqueueFile_finally st) = console st"
  "requests (enqueueFile_finally st) = requests st"
  "hasError (enqueueFile_finally st) = hasError st"
  "onQueueEmpty (enqueueFile_finally st) = onQueueEmpty st"
  by (simp_all add: enqueueFile_finally_def Let_def)

lemma enqueueFile_catch_fields [simp]:
  "tasks (enqueueFile_catch url st) = tasks st"
  "activeTasks (enqueueFile_catch url st) = activeTasks st - 1"
  "parsedUrls (enqueueFile_catch url st) = parsedUrls st"
  "bundleParts (enqueueFile_catch url st) = bundleParts st"
  "bundledFrom (enqueueFile_catch url st) = bundledFrom st"
  "parsedLog (enqueueFile_catch url st) = parsedLog st"
  "console (enqueueFile_catch url st) = console st @ [LogUnexpected url]"
  "requests (enqueueFile_catch url st) = requests st"
  "hasError (enqueueFile_catch url st) = True"
  by (simp_all add: enqueueFile_catch_def)

lemma enqueueAll_fields [simp]:
  "parsedUrls (enqueueAll w v deps base st) = parsedUrls st"
  "bundleParts (enqueueAll w v deps base st) = bundleParts st"
  "bundledFrom (enqueueAll w v deps base st) = bundledFrom st"
  "parsedLog (enqueueAll w v deps base st) = parsedLog st"
  "console (enqueueAll w v deps base st) = console st"
  "hasError (enqueueAll w v deps base st) = hasError st"
  unfolding enqueueAll_def
  by (induction deps arbitrary: st; simp add: enqueueFile_start_fields)+

lemma enqueueFile_parsed_fields [simp]:
  "parsedUrls (enqueueFile_parsed w v url f ast st) = parsedUrls st"
  "bundleParts (enqueueFile_parsed w v url f ast st) = bundleParts st"
  "bundledFrom (enqueueFile_parsed w v url f ast st) = bundledFrom st"
  "parsedLog (enqueueFile_parsed w v url f ast st) = parsedLog st"
  by (simp_all add: enqueueFile_parsed_def split: sum.splits)

lemma deduplicated_manifest: "deduplicated st \<Longrightarrow> deduplicated (enqueueFile_manifest w url st)"
proof (cases "resolveUrl_end w url st")
  case (Pair r st')
  assume d: "deduplicated st"
  from resolveUrl_end_state [OF Pair] obtain c where "st' = st\<lparr>pkgResolveCache := c\<rparr>" by auto
  with Pair d show ?thesis
    by (simp add: enqueueFile_manifest_def deduplicated_def)
qed

lemma deduplicated_resolved: "deduplicated st \<Longrightarrow> deduplicated (enqueueFile_resolved url r st)"
  by (auto simp: enqueueFile_resolved_def deduplicated_def split: sum.splits option.splits list.splits)

lemma deduplicated_fetch: "deduplicated st \<Longrightarrow> deduplicated (enqueueFile_fetch w v url p us st)"
  by (auto simp: enqueueFile_fetch_def deduplicated_def split: prod.splits)

lemma set_markParsed: "set (markParsed final p parsed) = insert final (insert p (set parsed))"
  by (auto simp: markParsed_def set_setAdd)

lemma deduplicated_fetched: "deduplicated st \<Longrightarrow> deduplicated (enqueueFile_fetched w v url p res st)"
  unfolding enqueueFile_fetched_def Let_def
  by (auto simp: deduplicated_def set_markParsed split: sum.splits option.splits)

lemma deduplicated_step: "deduplicated st \<Longrightarrow> deduplicated (step w v i st)"
proof (cases "i < length (tasks st)")
  case False
  assume "deduplicated st"
  with False show ?thesis by (simp add: step_def)
next
  case True
  assume "deduplicated st"
  then have d: "deduplicated (st\<lparr>tasks := take i (tasks st) @ drop (Suc i) (tasks st)\<rparr>)"
    by (simp add: deduplicated_def)
  show ?thesis
    using True
    by (cases "tasks st ! i")
       (simp_all add: step_def resume_def d deduplicated_manifest deduplicated_resolved
                      deduplicated_fetch deduplicated_fetched)
qed

lemma deduplicated_run_start: "deduplicated (run_start w v pkg)"
  using enqueueFile_start_fields [of w v pkg None "initial\<lparr>console := [LogAnalyzing pkg]\<rparr>"]
  by (auto simp: run_start_def Let_def deduplicated_def initial_def)

lemma deduplicated_fold: "deduplicated st \<Longrightarrow> deduplicated (fold (step w v) schedule st)"
  by (induction schedule arbitrary: st) (auto intro: deduplicated_step)

lemma deduplicated_run_steps: "deduplicated (run_steps w v pkg schedule)"
  by (simp add: run_steps_def deduplicated_fold deduplicated_run_start)

lemma twiceProgram_deps: "findDependencies v twiceProgram [] = Inr [''https://h/a'', ''https://h/a.js'']"
  by (cases v) (simp_all add: twiceProgram_def fd_eval)

lemma programs_truthy: "truthy twiceProgram" "truthy (mkProgram xs)"
  by (simp_all add: twiceProgram_def mkProgram_def)

lemma emptyProgram_deps: "findDependencies v (mkProgram []) [] = Inr []"
  by (cases v) (simp_all add: fd_eval)

lemmas run_eval = run_steps_def run_start_def step_def resume_def initial_def
  enqueueFile_start_def enqueueFile_finally_def enqueueFile_catch_def enqueueFile_manifest_def
  enqueueFile_resolved_def enqueueFile_fetch_def enqueueFile_fetched_def enqueueFile_parsed_def
  enqueueAll_def parseSource_def markParsed_def downloadedLine_def setAdd_def
  resolveUrl_begin_def resolveUrl_end_def resolvePackageUrl_begin_def resolvePackageUrl_end_def
  isBuiltin_def NODE_BUILTINS_def startsWith_def truthyBase_def joinUrl_def isLocalFile_def
  fetchFile_def urls0_def attemptUrl_def tryFetch_def retrySuffixes_def deliver_def
  looksLikeSource_def endsWith_def extensions_def

lemma twice_start:
  "run_start twiceWorld v ''https://h/e.js'' =
     snapshot
       []
       [] [] 1
       [LogAnalyzing ''https://h/e.js'']
       [AwaitResolved ''https://h/e.js'' (Inr (Some [''https://h/e.js'']))]
       0 []"
  by (cases v) (simp_all add: snapshot_def run_eval twiceWorld_def offline_def textResponse_def twiceProgram_deps emptyProgram_deps programs_truthy Let_def)

lemma twice_step1:
  "step twiceWorld v 0
     (snapshot
       []
       [] [] 1
       [LogAnalyzing ''https://h/e.js'']
       [AwaitResolved ''https://h/e.js'' (Inr (Some [''https://h/e.js'']))]
       0 []) =
     snapshot
       []
       [] [] 1
       [LogAnalyzing ''https://h/e.js'']
       [AwaitFetch ''https://h/e.js'' ''https://h/e.js'' [''https://h/e.js'']]
       0 []"
  by (cases v) (simp_all add: snapshot_def run_eval twiceWorld_def offline_def textResponse_def twiceProgram_deps emptyProgram_deps programs_truthy Let_def)

lemma twice_step2:
  "step twiceWorld v 0
     (snapshot
       []
       [] [] 1
       [LogAnalyzing ''https://h/e.js'']
       [AwaitFetch ''https://h/e.js'' ''https://h/e.js'' [''https://h/e.js'']]
       0 []) =
     snapshot
       [''https://h/e.js'']
       [] [] 1
       [LogAnalyzing ''https://h/e.js'']
       [AwaitFetched ''https://h/e.js'' ''https://h/e.js'' (Inr (Some \<lparr>code = ''E'', finalUrl = ''https://h/e.js'', isLocal = False\<rparr>))]
       0 []"
  by (cases v) (simp_all add: snapshot_def run_eval twiceWorld_def offline_def textResponse_def twiceProgram_deps emptyProgram_deps programs_truthy Let_def)

lemma twice_step3:
  "step twiceWorld v 0
     (snapshot
       [''https://h/e.js'']
       [] [] 1
       [LogAnalyzing ''https://h/e.js'']
       [AwaitFetched ''https://h/e.js'' ''https://h/e.js'' (Inr (Some \<lparr>code = ''E'', finalUrl = ''https://h/e.js'', isLocal = False\<rparr>))]
       0 []) =
     snapshot
       [''https://h/e.js'']
       [''https://h/e.js''] [''E''] 2
       [LogAnalyzing ''https://h/e.js'', LogDownloaded ''https://h/e.js'', LogDependencies [''https://h/a'', ''https://h/a.js'']]
       [AwaitResolved ''https://h/a'' (Inr (Some [''https://h/a''])), AwaitResolved ''https://h/a.js'' (Inr (Some [''https://h/a.js'']))]
       0 [''https://h/e.js'']"
  by (cases v) (simp_all add: snapshot_def run_eval twiceWorld_def offline_def textResponse_def twiceProgram_deps emptyProgram_deps programs_truthy Let_def)

lemma twice_step4:
  "step twiceWorld v 0
     (snapshot
       [''https://h/e.js'']
       [''https://h/e.js''] [''E''] 2
       [LogAnalyzing ''https://h/e.js'', LogDownloaded ''https://h/e.js'', LogDependencies [''https://h/a'', ''https://h/a.js'']]
       [AwaitResolved ''https://h/a'' (Inr (Some [''https://h/a''])), AwaitResolved ''https://h/a.js'' (Inr (Some [''https://h/a.js'']))]
       0 [''https://h/e.js'']) =
     snapshot
       [''https://h/e.js'']
       [''https://h/e.js''] [''E''] 2
       [LogAnalyzing ''https://h/e.js'', LogDownloaded ''https://h/e.js'', LogDependencies [''https://h/a'', ''https://h/a.js'']]
       [AwaitResolved ''https://h/a.js'' (Inr (Some [''https://h/a.js''])), AwaitFetch ''https://h/a'' ''https://h/a'' [''https://h/a'']]
       0 [''https://h/e.js'']"
  by (cases v) (simp_all add: snapshot_def run_eval twiceWorld_def offline_def textResponse_def twiceProgram_deps emptyProgram_deps programs_truthy Let_def)

lemma twice_step5:
  "step twiceWorld v 0
     (snapshot
       [''https://h/e.js'']
       [''https://h/e.js''] [''E''] 2
       [LogAnalyzing ''https://h/e.js'', LogDownloaded ''https://h/e.js'', LogDependencies [''https://h/a'', ''https://h/a.js'']]
       [AwaitResolved ''https://h/a.js'' (Inr (Some [''https://h/a.js''])), AwaitFetch ''https://h/a'' ''https://h/a'' [''https://h/a'']]
       0 [''https://h/e.js'']) =
     snapshot
       [''https://h/e.js'']
       [''https://h/e.js''] [''E''] 2
       [LogAnalyzing ''https://h/e.js'', LogDownloaded ''https://h/e.js'', LogDependencies [''https://h/a'', ''https://h/a.js'']]
       [AwaitFetch ''https://h/a'' ''https://h/a'' [''https://h/a''], AwaitFetch ''https://h/a.js'' ''https://h/a.js'' [''https://h/a.js'']]
       0 [''https://h/e.js'']"
  by (cases v) (simp_all add: snapshot_def run_eval twiceWorld_def offline_def textResponse_def twiceProgram_deps emptyProgram_deps programs_truthy Let_def)

lemma twice_step6:
  "step twiceWorld v 0
     (snapshot
       [''https://h/e.js'']
       [''https://h/e.js''] [''E''] 2
       [LogAnalyzing ''https://h/e.js'', LogDownloaded ''https://h/e.js'', LogDependencies [''https://h/a'', ''https://h/a.js'']]
       [AwaitFetch ''https://h/a'' ''https://h/a'' [''https://h/a''], AwaitFetch ''https://h/a.js'' ''https://h/a.js'' [''https://h/a.js'']]
       0 [''https://h/e.js'']) =
     snapshot
       [''https://h/e.js'', ''https://h/a'', ''https://h/a.js'']
       [''https://h/e.js''] [''E''] 2
       [LogAnalyzing ''https://h/e.js'', LogDownloaded ''https://h/e.js'', LogDependencies [''https://h/a'', ''https://h/a.js'']]
       [AwaitFetch ''https://h/a.js'' ''https://h/a.js'' [''https://h/a.js''], AwaitFetched ''https://h/a'' ''https://h/a'' (Inr (Some \<lparr>code = ''A'', finalUrl = ''https://h/a.js'', isLocal = False\<rparr>))]
       0 [''https://h/e.js'']"
  by (cases v) (simp_all add: snapshot_def run_eval twiceWorld_def offline_def textResponse_def twiceProgram_deps emptyProgram_deps programs_truthy Let_def)

lemma twice_step7:
  "step twiceWorld v 0
     (snapshot
       [''https://h/e.js'', ''https://h/a'', ''https://h/a.js'']
       [''https://h/e.js''] [''E''] 2
       [LogAnalyzing ''https://h/e.js'', LogDownloaded ''https://h/e.js'', LogDependencies [''https://h/a'', ''https://h/a.js'']]
       [AwaitFetch ''https://h/a.js'' ''https://h/a.js'' [''https://h/a.js''], AwaitFetched ''https://h/a'' ''https://h/a'' (Inr (Some \<lparr>code = ''A'', finalUrl = ''https://h/a.js'', isLocal = False\<rparr>))]
       0 [''https://h/e.js'']) =
     snapshot
       [''https://h/e.js'', ''https://h/a'', ''https://h/a.js'', ''https://h/a.js'']
       [''https://h/e.js''] [''E''] 2
       [LogAnalyzing ''https://h/e.js'', LogDownloaded ''https://h/e.js'', LogDependencies [''https://h/a'', ''https://h/a.js'']]
       [AwaitFetched ''https://h/a'' ''https://h/a'' (Inr (Some \<lparr>code = ''A'', finalUrl = ''https://h/a.js'', isLocal = False\<rparr>)), AwaitFetched ''https://h/a.js'' ''https://h/a.js'' (Inr (Some \<lparr>code = ''A'', finalUrl = ''https://h/a.js'', isLocal = False\<rparr>))]
       0 [''https://h/e.js'']"
  by (cases v) (simp_all add: snapshot_def run_eval twiceWorld_def offline_def textResponse_def twiceProgram_deps emptyProgram_deps programs_truthy Let_def)

lemma twice_step8:
  "step twiceWorld v 0
     (snapshot
       [''https://h/e.js'', ''https://h/a'', ''https://h/a.js'', ''https://h/a.js'']
       [''https://h/e.js''] [''E''] 2
       [LogAnalyzing ''https://h/e.js'', LogDownloaded ''https://h/e.js'', LogDependencies [''https://h/a'', ''https://h/a.js'']]
       [AwaitFetched ''https://h/a'' ''https://h/a'' (Inr (Some \<lparr>code = ''A'', finalUrl = ''https://h/a.js'', isLocal = False\<rparr>)), AwaitFetched ''https://h/a.js'' ''https://h/a.js'' (Inr (Some \<lparr>code = ''A'', finalUrl = ''https://h/a.js'', isLocal = False\<rparr>))]
       0 [''https://h/e.js'']) =
     snapshot
       [''https://h/e.js'', ''https://h/a'', ''https://h/a.js'', ''https://h/a.js'']
       [''https://h/e.js'', ''https://h/a.js'', ''https://h/a''] [''E'', ''A''] 1
       [LogAnalyzing ''https://h/e.js'', LogDownloaded ''https://h/e.js'', LogDependencies [''https://h/a'', ''https://h/a.js''], LogDownloaded ''https://h/a.js'']
       [AwaitFetched ''https://h/a.js'' ''https://h/a.js'' (Inr (Some \<lparr>code = ''A'', finalUrl = ''https://h/a.js'', isLocal = False\<rparr>))]
       0 [''https://h/e.js'', ''https://h/a.js'']"
  by (cases v) (simp_all add: snapshot_def run_eval twiceWorld_def offline_def textResponse_def twiceProgram_deps emptyProgram_deps programs_truthy Let_def)

lemma twice_step9:
  "step twiceWorld v 0
     (snapshot
       [''https://h/e.js'', ''https://h/a'', ''https://h/a.js'', ''https://h/a.js'']
       [''https://h/e.js'', ''https://h/a.js'', ''https://h/a''] [''E'', ''A''] 1
       [LogAnalyzing ''https://h/e.js'', LogDownloaded ''https://h/e.js'', LogDependencies [''https://h/a'', ''https://h/a.js''], LogDownloaded ''https://h/a.js'']
       [AwaitFetched ''https://h/a.js'' ''https://h/a.js'' (Inr (Some \<lparr>code = ''A'', finalUrl = ''https://h/a.js'', isLocal = False\<rparr>))]
       0 [''https://h/e.js'', ''https://h/a.js'']) =
     snapshot
       [''https://h/e.js'', ''https://h/a'', ''https://h/a.js'', ''https://h/a.js'']
       [''https://h/e.js'', ''https://h/a.js'', ''https://h/a''] [''E'', ''A''] 0
       [LogAnalyzing ''https://h/e.js'', LogDownloaded ''https://h/e.js'', LogDependencies [''https://h/a'', ''https://h/a.js''], LogDownloaded ''https://h/a.js'']
       []
       1 [''https://h/e.js'', ''https://h/a.js'']"
  by (cases v) (simp_all add: snapshot_def run_eval twiceWorld_def offline_def textResponse_def twiceProgram_deps emptyProgram_deps programs_truthy Let_def)

lemma twice_run:
  "run_steps twiceWorld v ''https://h/e.js'' [0, 0, 0, 0, 0, 0, 0, 0, 0] =
     snapshot
       [''https://h/e.js'', ''https://h/a'', ''https://h/a.js'', ''https://h/a.js'']
       [''https://h/e.js'', ''https://h/a.js'', ''https://h/a''] [''E'', ''A''] 0
       [LogAnalyzing ''https://h/e.js'', LogDownloaded ''https://h/e.js'', LogDependencies [''https://h/a'', ''https://h/a.js''], LogDownloaded ''https://h/a.js'']
       []
       1 [''https://h/e.js'', ''https://h/a.js'']"
  unfolding run_steps_def
  by (simp only: fold_simps o_apply twice_start twice_step1 twice_step2 twice_step3 twice_step4
        twice_step5 twice_step6 twice_step7 twice_step8 twice_step9)

lemma firstResponse_net: "firstResponse w as = Some r \<Longrightarrow> \<exists>a. net w a = Some r"
  by (induction as) (auto split: option.splits)

lemma fetchRemote_location:
  "fetchRemote w first urls reqs = (Inr (Some f), reqs') \<Longrightarrow> finalUrl f \<in> locations w"
proof -
  assume "fetchRemote w first urls reqs = (Inr (Some f), reqs')"
  then obtain r where r: "firstResponse w (concat (map attempts urls)) = Some r" "deliver r = Inr (Some f)"
    unfolding fetchRemote_attempts by (auto split: option.splits)
  from firstResponse_net [OF r(1)] obtain a where "net w a = Some r" by blast
  moreover from r(2) have "finalUrl f = rurl r"
    by (auto simp: deliver_def split: option.splits)
  ultimately have "\<exists>a r'. net w a = Some r' \<and> rurl r' = finalUrl f"
    by (intro exI [of _ a] exI [of _ r]) simp
  then show ?thesis by (simp add: locations_def)
qed

lemma fetchLocal_location: "fetchLocal w p exts = Inr (Some f) \<Longrightarrow> finalUrl f \<in> locations w"
  by (induction exts) (auto simp: Let_def locations_def split: if_splits option.splits)

lemma fetchFile_location: "fetchFile w v urls = (Inr (Some f), reqs) \<Longrightarrow> finalUrl f \<in> locations w"
  by (cases v)
     (auto simp: fetchFile_def simp del: fetchRemote.simps split: list.splits if_splits
           dest: fetchRemote_location fetchLocal_location)

lemma enqueueFile_start_task:
  "\<exists>t. tasks (enqueueFile_start w v url baseUrl st) = tasks st @ [t] \<and> known w' t \<and> weight t \<le> 4"
proof -
  obtain r st' where p: "resolveUrl_begin w v url baseUrl (st\<lparr>activeTasks := activeTasks st + 1\<rparr>) = (r, st')"
    by (cases "resolveUrl_begin w v url baseUrl (st\<lparr>activeTasks := activeTasks st + 1\<rparr>)")
  from resolveUrl_begin_state [OF p] obtain reqs where
    st': "st' = st\<lparr>activeTasks := activeTasks st + 1, requests := reqs\<rparr>" by auto
  show ?thesis using p st' by (cases r) (simp_all add: enqueueFile_start_def)
qed

lemma known_enqueueAll:
  "list_all (known w') (tasks st) \<Longrightarrow> list_all (known w') (tasks (enqueueAll w v deps base st))"
  unfolding enqueueAll_def
proof (induction deps arbitrary: st)
  case Nil
  then show ?case by simp
next
  case (Cons dep deps)
  from enqueueFile_start_task [of w v dep "Some base" st w'] Cons.prems
  have "list_all (known w') (tasks (enqueueFile_start w v dep (Some base) st))"
    by auto
  from Cons.IH [OF this] show ?case by simp
qed

lemma unvisited_same: "parsedUrls st' = parsedUrls st \<Longrightarrow> unvisited w st' = unvisited w st"
  by (simp add: unvisited_def)

lemma pending_same: "tasks st' = tasks st \<Longrightarrow> pending st' = pending st"
  by (simp add: pending_def)

lemma progress_end:
  assumes "tasks st' = tasks st" "parsedUrls st' = parsedUrls st" "list_all (known w) (tasks st)" "0 < k"
  shows "progress w k st st'"
  using assms unvisited_same [of st' st w] pending_same [of st' st] by (simp add: progress_def)

lemma progress_suspend:
  assumes "tasks st' = tasks st @ [t]" "parsedUrls st' = parsedUrls st" "list_all (known w) (tasks st)"
    "known w t" "weight t < k"
  shows "progress w k st st'"
  using assms unvisited_same [of st' st w] by (simp add: progress_def pending_def)

lemma progress_manifest:
  "list_all (known w) (tasks st) \<Longrightarrow> progress w 4 st (enqueueFile_manifest w url st)"
proof (cases "resolveUrl_end w url st")
  case (Pair r st')
  assume k: "list_all (known w) (tasks st)"
  from resolveUrl_end_state [OF Pair] obtain c where "st' = st\<lparr>pkgResolveCache := c\<rparr>" by auto
  with Pair k show ?thesis
    by (intro progress_suspend [where t = "AwaitResolved url r"]) (simp_all add: enqueueFile_manifest_def)
qed

lemma progress_resolved:
  "list_all (known w) (tasks st) \<Longrightarrow> progress w 3 st (enqueueFile_resolved url r st)"
proof -
  assume k: "list_all (known w) (tasks st)"
  have e: "progress w 3 st (enqueueFile_finally st)" "progress w 3 st (enqueueFile_catch url st)"
    using k by (auto intro!: progress_end)
  have s: "progress w 3 st (st\<lparr>tasks := tasks st @ [AwaitFetch url p us]\<rparr>)" for p us
    using k by (intro progress_suspend [where t = "AwaitFetch url p us"]) simp_all
  show ?thesis
    unfolding enqueueFile_resolved_def
    using e s by (auto split: sum.splits option.splits list.splits)
qed

lemma progress_fetch:
  "list_all (known w) (tasks st) \<Longrightarrow> progress w 2 st (enqueueFile_fetch w v url p us st)"
proof (cases "fetchFile w v us")
  case (Pair res reqs)
  assume k: "list_all (known w) (tasks st)"
  have "known w (AwaitFetched url p res)"
  proof (cases res)
    case (Inr x)
    then show ?thesis using Pair by (cases x) (auto dest: fetchFile_location)
  qed simp
  with Pair k show ?thesis
    by (intro progress_suspend [where t = "AwaitFetched url p res"]) (simp_all add: enqueueFile_fetch_def)
qed

lemma unvisited_less:
  assumes "finite (locations w)" "u \<in> locations w" "u \<notin> set (parsedUrls st)"
    "set (parsedUrls st') = insert u (insert p (set (parsedUrls st)))"
  shows "unvisited w st' < unvisited w st"
  unfolding unvisited_def
  using assms by (intro psubset_card_mono) auto

lemma progress_visit:
  assumes "finite (locations w)" "u \<in> locations w" "u \<notin> set (parsedUrls st)"
    "set (parsedUrls st') = insert u (insert p (set (parsedUrls st)))" "list_all (known w) (tasks st')"
  shows "progress w k st st'"
  using unvisited_less [OF assms(1-4)] assms(5) by (simp add: progress_def)

lemma known_parsed:
  "list_all (known w') (tasks st) \<Longrightarrow> list_all (known w') (tasks (enqueueFile_parsed w v url f ast st))"
  by (auto simp: enqueueFile_parsed_def split: sum.splits intro!: known_enqueueAll)

lemma progress_fetched:
  assumes "finite (locations w)" "list_all (known w) (tasks st)" "known w (AwaitFetched url p res)"
  shows "progress w 1 st (enqueueFile_fetched w v url p res st)"
proof (cases res)
  case (Inl e)
  with assms show ?thesis
    by (auto simp: enqueueFile_fetched_def intro!: progress_end)
next
  case (Inr x)
  show ?thesis
  proof (cases x)
    case None
    with Inr assms show ?thesis
      by (auto simp: enqueueFile_fetched_def intro!: progress_end)
  next
    case (Some f)
    show ?thesis
    proof (cases "finalUrl f \<in> set (parsedUrls st)")
      case True
      with Inr Some assms show ?thesis
        by (auto simp: enqueueFile_fetched_def intro!: progress_end)
    next
      case False
      from assms(3) Inr Some have loc: "finalUrl f \<in> locations w" by simp
      let ?st1 = "st\<lparr>parsedUrls := markParsed (finalUrl f) p (parsedUrls st),
                           console := console st @ [downloadedLine v f],
                           bundleParts := bundleParts st @ [code f],
                           bundledFrom := bundledFrom st @ [finalUrl f],
                           parsedLog := parsedLog st @ [finalUrl f]\<rparr>"
      have k1: "list_all (known w) (tasks ?st1)" using assms(2) by simp
      show ?thesis
        using Inr Some False
        unfolding enqueueFile_fetched_def Let_def
        by (auto split: option.splits simp: set_markParsed
                 intro!: progress_visit [OF assms(1) loc, where p = p] known_parsed k1 [simplified])
    qed
  qed
qed

lemma progress_resume:
  assumes "finite (locations w)" "list_all (known w) (tasks st)" "known w t"
  shows "progress w (weight t) st (resume w v t st)"
proof (cases t)
  case (AwaitManifest url)
  with assms progress_manifest [of w st url] show ?thesis by (simp add: resume_def)
next
  case (AwaitResolved url r)
  with assms progress_resolved [of w st url r] show ?thesis by (simp add: resume_def)
next
  case (AwaitFetch url p us)
  with assms progress_fetch [of w st v url p us] show ?thesis by (simp add: resume_def)
next
  case (AwaitFetched url p res)
  with assms progress_fetched [of w st url p res v] show ?thesis by (simp add: resume_def)
qed

lemma sum_list_remove:
  fixes f :: "'a \<Rightarrow> nat"
  shows "i < length xs \<Longrightarrow> sum_list (map f (take i xs @ drop (Suc i) xs)) + f (xs ! i) = sum_list (map f xs)"
proof -
  assume "i < length xs"
  then have "xs = take i xs @ xs ! i # drop (Suc i) xs" by (rule id_take_nth_drop)
  then have "sum_list (map f xs) = sum_list (map f (take i xs @ xs ! i # drop (Suc i) xs))" by simp
  then show ?thesis by simp
qed

lemma step_decreases:
  assumes "finite (locations w)" "list_all (known w) (tasks st)" "i < length (tasks st)"
  shows "list_all (known w) (tasks (step w v i st)) \<and>
         ((unvisited w (step w v i st), pending (step w v i st)), (unvisited w st, pending st))
           \<in> less_than <*lex*> less_than"
proof -
  let ?st0 = "st\<lparr>tasks := take i (tasks st) @ drop (Suc i) (tasks st)\<rparr>"
  let ?t = "tasks st ! i"
  from assms(2,3) have k0: "list_all (known w) (tasks ?st0)" and kt: "known w ?t"
    by (auto simp: list_all_iff dest: in_set_takeD in_set_dropD)
  have p: "pending st = pending ?st0 + weight ?t"
    using sum_list_remove [OF assms(3), of weight] by (simp add: pending_def)
  have u: "unvisited w ?st0 = unvisited w st"
    by (simp add: unvisited_def)
  from progress_resume [OF assms(1) k0 kt, of v] assms(3) p u show ?thesis
    by (auto simp: progress_def step_def)
qed

lemma known_run_start: "list_all (known w') (tasks (run_start w v pkg))"
  using enqueueFile_start_task [of w v pkg None "initial\<lparr>console := [LogAnalyzing pkg]\<rparr>" w']
  by (auto simp: run_start_def Let_def initial_def)

lemma known_fold:
  "finite (locations w) \<Longrightarrow> list_all (known w) (tasks st) \<Longrightarrow>
   list_all (known w) (tasks (fold (step w v) schedule st))"
proof (induction schedule arbitrary: st)
  case Nil
  then show ?case by simp
next
  case (Cons i schedule)
  have "list_all (known w) (tasks (step w v i st))"
  proof (cases "i < length (tasks st)")
    case True
    with step_decreases [OF Cons.prems(1,2)] show ?thesis by blast
  next
    case False
    with Cons.prems show ?thesis by (simp add: step_def)
  qed
  from Cons.IH [OF Cons.prems(1) this] show ?case by simp
qed

lemma known_run_steps:
  "finite (locations w) \<Longrightarrow> list_all (known w) (tasks (run_steps w v pkg schedule))"
  by (simp add: run_steps_def known_fold known_run_start)

lemma run_terminates:
  assumes "finite (locations w)"
  shows "wf {(st', st). (\<exists>schedule. st = run_steps w v pkg schedule) \<and>
                        (\<exists>i<length (tasks st). st' = step w v i st)}"
proof (rule wf_subset)
  show "wf (inv_image (less_than <*lex*> less_than) (\<lambda>st. (unvisited w st, pending st)))"
    by (intro wf_inv_image wf_lex_prod wf_less_than)
  show "{(st', st). (\<exists>schedule. st = run_steps w v pkg schedule) \<and>
                        (\<exists>i<length (tasks st). st' = step w v i st)}
        \<subseteq> inv_image (less_than <*lex*> less_than) (\<lambda>st. (unvisited w st, pending st))"
  proof (clarify)
    fix schedule i
    assume i: "i < length (tasks (run_steps w v pkg schedule))"
    from step_decreases [OF assms known_run_steps [OF assms] i]
    show "(step w v i (run_steps w v pkg schedule), run_steps w v pkg schedule)
            \<in> inv_image (less_than <*lex*> less_than) (\<lambda>st. (unvisited w st, pending st))"
      by (simp add: inv_image_def)
  qed
qed

text \<open>
  C3. Scheduling a task increments the counter and adds one task; the \<^verbatim>\<open>finally\<close> block
  decrements it. After any steps of any run, in any order and whatever the outcome of each
  task, the counter is the number of suspended tasks, and the completion signal has fired
  exactly once if no task is left and not at all otherwise: it fires when the counter returns
  to zero, never earlier and never again. In a world with finitely many canonical locations
  no run goes on for ever: resuming tasks of reachable states is well-founded, so every run
  reaches the state with no task left.
\<close>

theorem completion_fires_once:
  "activeTasks (enqueueFile_start w v url baseUrl st) = activeTasks st + 1
   \<and> length (tasks (enqueueFile_start w v url baseUrl st)) = length (tasks st) + 1
   \<and> activeTasks (enqueueFile_finally st) = activeTasks st - 1
   \<and> activeTasks (run_steps w v pkg schedule) = int (length (tasks (run_steps w v pkg schedule)))
   \<and> completions (run_steps w v pkg schedule) = (if tasks (run_steps w v pkg schedule) = [] then 1 else 0)
   \<and> (finite (locations w) \<longrightarrow>
        wf {(st', st). (\<exists>schedule. st = run_steps w v pkg schedule) \<and>
                       (\<exists>i<length (tasks st). st' = step w v i st)})"
proof -
  from enqueueFile_start_fields(2) [of w v url baseUrl st]
  have "length (tasks (enqueueFile_start w v url baseUrl st)) = length (tasks st) + 1"
    by auto
  moreover from balanced_run_steps [of w v pkg schedule]
  have "activeTasks (run_steps w v pkg schedule) = int (length (tasks (run_steps w v pkg schedule)))"
    "completions (run_steps w v pkg schedule) = (if tasks (run_steps w v pkg schedule) = [] then 1 else 0)"
    by (simp_all add: balanced_def)
  ultimately show ?thesis
    using run_terminates [of w v pkg]
    by (simp add: enqueueFile_start_fields(1))
qed

lemma twiceWorld_locations: "finite (locations twiceWorld)"
proof (rule finite_subset)
  show "locations twiceWorld \<subseteq> {''https://h/e.js'', ''https://h/a.js''}"
    by (auto simp: locations_def twiceWorld_def offline_def textResponse_def split: if_splits)
qed simp

text \<open>
  The example run: after the entry module has scheduled its two dependencies the signal has
  not fired and two tasks are live; after nine steps no task is left and it has fired once.
\<close>

theorem completion_fires_once_witness:
  "completions (run_steps twiceWorld Acorn ''https://h/e.js'' [0, 0, 0]) = 0
   \<and> activeTasks (run_steps twiceWorld Acorn ''https://h/e.js'' [0, 0, 0]) = 2
   \<and> completions (run_steps twiceWorld Acorn ''https://h/e.js'' [0, 0, 0, 0, 0, 0, 0, 0, 0]) = 1
   \<and> activeTasks (run_steps twiceWorld Acorn ''https://h/e.js'' [0, 0, 0, 0, 0, 0, 0, 0, 0]) = 0
   \<and> wf {(st', st). (\<exists>schedule. st = run_steps twiceWorld Acorn ''https://h/e.js'' schedule) \<and>
                     (\<exists>i<length (tasks st). st' = step twiceWorld Acorn i st)}"
proof -
  have t3: "length (tasks (run_steps twiceWorld Acorn ''https://h/e.js'' [0, 0, 0])) = 2"
    unfolding run_steps_def
    by (simp only: fold_simps o_apply twice_start twice_step1 twice_step2 twice_step3)
       (simp add: snapshot_def)
  have t9: "tasks (run_steps twiceWorld Acorn ''https://h/e.js'' [0, 0, 0, 0, 0, 0, 0, 0, 0]) = []"
    by (simp add: twice_run snapshot_def)
  from completion_fires_once [of twiceWorld Acorn _ _ _ "''https://h/e.js''" "[0, 0, 0]"] t3
  have a: "completions (run_steps twiceWorld Acorn ''https://h/e.js'' [0, 0, 0]) = 0"
    "activeTasks (run_steps twiceWorld Acorn ''https://h/e.js'' [0, 0, 0]) = 2"
    by auto
  from completion_fires_once [of twiceWorld Acorn _ _ _ "''https://h/e.js''" "[0, 0, 0, 0, 0, 0, 0, 0, 0]"] t9
  have b: "completions (run_steps twiceWorld Acorn ''https://h/e.js'' [0, 0, 0, 0, 0, 0, 0, 0, 0]) = 1"
    "activeTasks (run_steps twiceWorld Acorn ''https://h/e.js'' [0, 0, 0, 0, 0, 0, 0, 0, 0]) = 0"
    "wf {(st', st). (\<exists>schedule. st = run_steps twiceWorld Acorn ''https://h/e.js'' schedule) \<and>
                     (\<exists>i<length (tasks st). st' = step twiceWorld Acorn i st)}"
    using twiceWorld_locations by auto
  from a b show ?thesis by blast
qed

text \<open>
  C2, as stated: a canonical location is fetched at most once. A location is marked only
  after its fetch has returned, so two tasks that resolve to the same location while neither
  fetch has returned both fetch it: in the example run \<^verbatim>\<open>https://h/a.js\<close> is requested twice.
\<close>

theorem location_fetched_twice:
  "count_list (requests (run_steps twiceWorld Acorn ''https://h/e.js'' [0, 0, 0, 0, 0, 0, 0, 0, 0]))
     ''https://h/a.js'' = 2
   \<and> count_list (requests (run_steps twiceWorld Oxc ''https://h/e.js'' [0, 0, 0, 0, 0, 0, 0, 0, 0]))
     ''https://h/a.js'' = 2"
  by (simp add: twice_run snapshot_def)

lemma fetched_again:
  "finalUrl f \<in> set (parsedUrls st) \<Longrightarrow>
     enqueueFile_fetched w v url p (Inr (Some f)) st = enqueueFile_finally st"
  by (simp add: enqueueFile_fetched_def)

text \<open>
  C2, amended. After any steps of any run, each canonical location has at most one bundle
  part and was handed to the parser at most once, whatever specifiers resolved to it; a task
  whose fetch returns a location already marked appends nothing, parses nothing and schedules
  nothing. (A location may be fetched more than once.)
\<close>

theorem parsed_and_bundled_once:
  "distinct (bundledFrom (run_steps w v pkg schedule))
   \<and> parsedLog (run_steps w v pkg schedule) = bundledFrom (run_steps w v pkg schedule)
   \<and> length (bundleParts (run_steps w v pkg schedule)) = length (bundledFrom (run_steps w v pkg schedule))
   \<and> set (bundledFrom (run_steps w v pkg schedule)) \<subseteq> set (parsedUrls (run_steps w v pkg schedule))
   \<and> (finalUrl f \<in> set (parsedUrls st) \<longrightarrow>
        bundleParts (enqueueFile_fetched w v url p (Inr (Some f)) st) = bundleParts st \<and>
        parsedLog (enqueueFile_fetched w v url p (Inr (Some f)) st) = parsedLog st \<and>
        tasks (enqueueFile_fetched w v url p (Inr (Some f)) st) = tasks st)"
  using deduplicated_run_steps [of w v pkg schedule]
  by (simp add: deduplicated_def fetched_again)

text \<open>
  In the example run the location fetched twice is bundled and parsed once.
\<close>

theorem parsed_and_bundled_once_witness:
  "bundleParts (run_steps twiceWorld Acorn ''https://h/e.js'' [0, 0, 0, 0, 0, 0, 0, 0, 0]) = [''E'', ''A'']
   \<and> parsedLog (run_steps twiceWorld Acorn ''https://h/e.js'' [0, 0, 0, 0, 0, 0, 0, 0, 0]) =
       [''https://h/e.js'', ''https://h/a.js'']
   \<and> distinct (bundledFrom (run_steps twiceWorld Acorn ''https://h/e.js'' [0, 0, 0, 0, 0, 0, 0, 0, 0]))"
  using parsed_and_bundled_once [of twiceWorld Acorn "''https://h/e.js''" "[0, 0, 0, 0, 0, 0, 0, 0, 0]"]
  by (simp add: twice_run snapshot_def)

lemma parseSource_None:
  "parseSource w v f = None \<longleftrightarrow>
     (case v of Acorn \<Rightarrow> parseModule w (code f) = None \<and> parseScript w (code f) = None
              | Oxc \<Rightarrow> parseSync w (finalUrl f) (code f) = None)"
  by (cases v) (auto simp: parseSource_def split: option.splits)

text \<open>
  C8. When the text of a newly fetched module cannot be parsed into a syntax tree (acorn throws
  on it as a module and as a script; the call of oxc throws), resuming its task appends the raw
  text to the bundle, logs the download and one warning, ends the task and schedules no further
  task: the module contributes no dependency.
\<close>

theorem parse_failure_bundled_raw:
  assumes "i < length (tasks st)" and "tasks st ! i = AwaitFetched url p (Inr (Some f))"
    and "finalUrl f \<notin> set (parsedUrls st)"
    and "case v of Acorn \<Rightarrow> parseModule w (code f) = None \<and> parseScript w (code f) = None
                 | Oxc \<Rightarrow> parseSync w (finalUrl f) (code f) = None"
  shows "bundleParts (step w v i st) = bundleParts st @ [code f]
       \<and> tasks (step w v i st) = take i (tasks st) @ drop (Suc i) (tasks st)
       \<and> requests (step w v i st) = requests st
       \<and> console (step w v i st) = console st @ [downloadedLine v f, LogParseFailed (finalUrl f)]
       \<and> activeTasks (step w v i st) = activeTasks st - 1
       \<and> hasError (step w v i st) = hasError st"
proof -
  from assms(4) have "parseSource w v f = None" by (simp add: parseSource_None)
  with assms(1-3) show ?thesis
    by (simp add: step_def resume_def enqueueFile_fetched_def Let_def)
qed

text \<open>
  A run of the acorn version whose entry module is the text \<^verbatim>\<open>function (\<close>: one bundle part,
  the warning, no task left, no request but the one for the module, completion fired.
\<close>

theorem parse_failure_bundled_raw_witness:
  "bundleParts (run_steps brokenWorld Acorn ''https://h/broken.js'' [0, 0, 0]) = [''function ('']
   \<and> tasks (run_steps brokenWorld Acorn ''https://h/broken.js'' [0, 0, 0]) = []
   \<and> requests (run_steps brokenWorld Acorn ''https://h/broken.js'' [0, 0, 0]) = [''https://h/broken.js'']
   \<and> console (run_steps brokenWorld Acorn ''https://h/broken.js'' [0, 0, 0]) =
       [LogAnalyzing ''https://h/broken.js'', LogDownloaded ''https://h/broken.js'',
        LogParseFailed ''https://h/broken.js'']
   \<and> completions (run_steps brokenWorld Acorn ''https://h/broken.js'' [0, 0, 0]) = 1"
proof -
  let ?u = "''https://h/broken.js''"
  let ?f = "\<lparr>code = ''function ('', finalUrl = ?u, isLocal = False\<rparr>"
  let ?st = "snapshot [?u] [] [] 1 [LogAnalyzing ?u] [AwaitFetched ?u ?u (Inr (Some ?f))] 0 []"
  have s0: "run_start brokenWorld Acorn ?u =
              snapshot [] [] [] 1 [LogAnalyzing ?u] [AwaitResolved ?u (Inr (Some [?u]))] 0 []"
    by (simp add: snapshot_def run_eval brokenWorld_def offline_def Let_def)
  have s1: "step brokenWorld Acorn 0 (snapshot [] [] [] 1 [LogAnalyzing ?u] [AwaitResolved ?u (Inr (Some [?u]))] 0 []) =
              snapshot [] [] [] 1 [LogAnalyzing ?u] [AwaitFetch ?u ?u [?u]] 0 []"
    by (simp add: snapshot_def run_eval brokenWorld_def offline_def Let_def)
  have s2: "step brokenWorld Acorn 0 (snapshot [] [] [] 1 [LogAnalyzing ?u] [AwaitFetch ?u ?u [?u]] 0 []) = ?st"
    by (simp add: snapshot_def run_eval brokenWorld_def offline_def textResponse_def Let_def)
  have r: "run_steps brokenWorld Acorn ?u [0, 0, 0] = step brokenWorld Acorn 0 ?st"
    unfolding run_steps_def by (simp only: fold_simps o_apply s0 s1 s2)
  have "0 < length (tasks ?st)" "tasks ?st ! 0 = AwaitFetched ?u ?u (Inr (Some ?f))"
    "finalUrl ?f \<notin> set (parsedUrls ?st)"
    "case Acorn of Acorn \<Rightarrow> parseModule brokenWorld (code ?f) = None \<and> parseScript brokenWorld (code ?f) = None
               | Oxc \<Rightarrow> parseSync brokenWorld (finalUrl ?f) (code ?f) = None"
    by (simp_all add: snapshot_def brokenWorld_def offline_def)
  from parse_failure_bundled_raw [OF this]
  have "bundleParts (step brokenWorld Acorn 0 ?st) = [''function ('']"
    "tasks (step brokenWorld Acorn 0 ?st) = []"
    "requests (step brokenWorld Acorn 0 ?st) = [?u]"
    "console (step brokenWorld Acorn 0 ?st) =
       [LogAnalyzing ?u, LogDownloaded ?u, LogParseFailed ?u]"
    by (simp_all add: snapshot_def downloadedLine_def)
  moreover from balanced_run_steps [of brokenWorld Acorn ?u "[0, 0, 0]"] this(2)
  have "completions (run_steps brokenWorld Acorn ?u [0, 0, 0]) = 1"
    by (simp add: balanced_def r)
  ultimately show ?thesis by (simp add: r)
qed

text \<open>
  The same entry module in the later version. oxc answers with a program without statements,
  and the run walks it as it walks any other: the raw text is in the bundle, nothing is
  scheduled, and no warning is printed, the errors oxc reports being read by no one.
\<close>

lemma oxc_walks_the_recovered_program:
  "bundleParts (run_steps brokenWorld Oxc ''https://h/broken.js'' [0, 0, 0]) = [''function ('']
   \<and> tasks (run_steps brokenWorld Oxc ''https://h/broken.js'' [0, 0, 0]) = []
   \<and> requests (run_steps brokenWorld Oxc ''https://h/broken.js'' [0, 0, 0]) = [''https://h/broken.js'']
   \<and> console (run_steps brokenWorld Oxc ''https://h/broken.js'' [0, 0, 0]) =
       [LogAnalyzing ''https://h/broken.js'', LogDownloaded ''https://h/broken.js'']"
proof -
  let ?u = "''https://h/broken.js''"
  let ?f = "\<lparr>code = ''function ('', finalUrl = ?u, isLocal = False\<rparr>"
  let ?st = "snapshot [?u] [] [] 1 [LogAnalyzing ?u] [AwaitFetched ?u ?u (Inr (Some ?f))] 0 []"
  have s0: "run_start brokenWorld Oxc ?u =
              snapshot [] [] [] 1 [LogAnalyzing ?u] [AwaitResolved ?u (Inr (Some [?u]))] 0 []"
    by (simp add: snapshot_def run_eval brokenWorld_def offline_def Let_def)
  have s1: "step brokenWorld Oxc 0 (snapshot [] [] [] 1 [LogAnalyzing ?u] [AwaitResolved ?u (Inr (Some [?u]))] 0 []) =
              snapshot [] [] [] 1 [LogAnalyzing ?u] [AwaitFetch ?u ?u [?u]] 0 []"
    by (simp add: snapshot_def run_eval brokenWorld_def offline_def Let_def)
  have s2: "step brokenWorld Oxc 0 (snapshot [] [] [] 1 [LogAnalyzing ?u] [AwaitFetch ?u ?u [?u]] 0 []) = ?st"
    by (simp add: snapshot_def run_eval brokenWorld_def offline_def textResponse_def Let_def)
  have s3: "step brokenWorld Oxc 0 ?st =
              snapshot [?u] [?u] [''function (''] 0 [LogAnalyzing ?u, LogDownloaded ?u] [] 1 [?u]"
    by (simp add: snapshot_def run_eval brokenWorld_def offline_def fd_eval Let_def)
  have "run_steps brokenWorld Oxc ?u [0, 0, 0] =
          snapshot [?u] [?u] [''function (''] 0 [LogAnalyzing ?u, LogDownloaded ?u] [] 1 [?u]"
    unfolding run_steps_def by (simp only: fold_simps o_apply s0 s1 s2 s3)
  then show ?thesis by (simp add: snapshot_def)
qed

lemma run_finish_exit: "fst (run_finish w v st) = ExitFailure \<longleftrightarrow> bundleParts st = []"
  by (auto simp: run_finish_def Let_def split: option.splits prod.splits)

lemma run_finish_report:
  "LogReport a b c \<in> set (console (snd (run_finish w v st))) \<Longrightarrow>
   LogReport a b c \<notin> set (console st) \<Longrightarrow>
   bundleParts st \<noteq> [] \<and> fst (run_finish w v st) = Reported a b c"
  by (auto simp: run_finish_def Let_def split: option.splits prod.splits if_splits)

lemma run_finish_crash:
  "fst (run_finish w v st) = Crashed \<Longrightarrow> bundleParts st \<noteq> [] \<and> (\<exists>text. gzipLength w text = None)"
  by (auto simp: run_finish_def Let_def split: option.splits prod.splits if_splits)

lemma run_finish_diagnostics:
  "fst (run_finish w v (st\<lparr>hasError := h, console := c\<rparr>)) = fst (run_finish w v st)"
  by (auto simp: run_finish_def Let_def split: option.splits prod.splits)

text \<open>
  C9. The exit is the failure exit exactly when the bundle is empty; the run crashes only
  when the compression throws, with a bundle that is not empty; the report is printed only
  with a bundle that is not empty; and neither \<^verbatim>\<open>hasError\<close> nor the console changes the
  outcome. Each failure of a task - resolution throws, fetch fails, the fetcher returns null,
  the traversal throws, the text does not parse - adds exactly one diagnostic line, leaves the
  other tasks as they are and leaves the bundle as it is (a text that does not parse was
  appended before the parse). That each such task still ends in the \<^verbatim>\<open>finally\<close> block is
  \<open>balanced_resume\<close>.
\<close>

theorem failures_are_swallowed:
  "(fst (run_finish w v st) = ExitFailure \<longleftrightarrow> bundleParts st = [])
   \<and> (fst (run_finish w v st) = Crashed \<longrightarrow> bundleParts st \<noteq> [] \<and> (\<exists>text. gzipLength w text = None))
   \<and> (LogReport n m g \<in> set (console (snd (run_finish w v st))) \<and> LogReport n m g \<notin> set (console st)
        \<longrightarrow> bundleParts st \<noteq> [] \<and> fst (run_finish w v st) = Reported n m g)
   \<and> fst (run_finish w v (st\<lparr>hasError := h, console := c\<rparr>)) = fst (run_finish w v st)
   \<and> console (enqueueFile_resolved url (Inl e) st) = console st @ [LogUnexpected url]
   \<and> bundleParts (enqueueFile_resolved url (Inl e) st) = bundleParts st
   \<and> tasks (enqueueFile_resolved url (Inl e) st) = tasks st
   \<and> console (enqueueFile_fetched w v url p (Inl e) st) = console st @ [LogFetchFailed url]
   \<and> bundleParts (enqueueFile_fetched w v url p (Inl e) st) = bundleParts st
   \<and> tasks (enqueueFile_fetched w v url p (Inl e) st) = tasks st
   \<and> console (enqueueFile_fetched w v url p (Inr None) st) = console st @ [LogUnexpected url]
   \<and> bundleParts (enqueueFile_fetched w v url p (Inr None) st) = bundleParts st
   \<and> tasks (enqueueFile_fetched w v url p (Inr None) st) = tasks st
   \<and> (truthy ast \<and> findDependencies v ast [] = Inl e \<longrightarrow>
        console (enqueueFile_parsed w v url f ast st) = console st @ [LogUnexpected url] \<and>
        bundleParts (enqueueFile_parsed w v url f ast st) = bundleParts st \<and>
        tasks (enqueueFile_parsed w v url f ast st) = tasks st)
   \<and> (parseSource w v f = None \<and> finalUrl f \<notin> set (parsedUrls st) \<longrightarrow>
        console (enqueueFile_fetched w v url p (Inr (Some f)) st) =
          console st @ [downloadedLine v f, LogParseFailed (finalUrl f)] \<and>
        tasks (enqueueFile_fetched w v url p (Inr (Some f)) st) = tasks st)"
  using run_finish_crash [of w v st] run_finish_report [of n m g w v st]
  by (simp add: run_finish_exit run_finish_diagnostics enqueueFile_resolved_def
                enqueueFile_fetched_def enqueueFile_parsed_def Let_def del: run_finish_report)

text \<open>
  A run whose only module cannot be fetched logs one line and exits with the failure exit;
  the example run with two modules reports them.
\<close>

theorem failures_are_swallowed_witness:
  "console (run_steps offline Acorn ''https://h/missing.js'' [0, 0, 0]) =
     [LogAnalyzing ''https://h/missing.js'', LogFetchFailed ''https://h/missing.js'']
   \<and> fst (run_finish offline Acorn (run_steps offline Acorn ''https://h/missing.js'' [0, 0, 0])) = ExitFailure
   \<and> fst (run_finish twiceWorld Acorn
            (run_steps twiceWorld Acorn ''https://h/e.js'' [0, 0, 0, 0, 0, 0, 0, 0, 0])) = Reported 2 3 3"
proof -
  let ?u = "''https://h/missing.js''"
  let ?reqs = "[?u, ''https://h/missing.js.js'', ''https://h/missing.js.mjs'', ''https://h/missing.js/index.js'']"
  let ?st = "(snapshot [?u] [] [] 1 [LogAnalyzing ?u] [] 0 [])"
  have s0: "run_start offline Acorn ?u =
              snapshot [] [] [] 1 [LogAnalyzing ?u] [AwaitResolved ?u (Inr (Some [?u]))] 0 []"
    by (simp add: snapshot_def run_eval offline_def Let_def)
  have s1: "step offline Acorn 0 (snapshot [] [] [] 1 [LogAnalyzing ?u] [AwaitResolved ?u (Inr (Some [?u]))] 0 []) =
              snapshot [] [] [] 1 [LogAnalyzing ?u] [AwaitFetch ?u ?u [?u]] 0 []"
    by (simp add: snapshot_def run_eval offline_def Let_def)
  have s2: "step offline Acorn 0 (snapshot [] [] [] 1 [LogAnalyzing ?u] [AwaitFetch ?u ?u [?u]] 0 []) =
              snapshot [?u] [] [] 1 [LogAnalyzing ?u] [AwaitFetched ?u ?u (Inl (FetchFailed ?u))] 0 []"
    by (simp add: snapshot_def run_eval offline_def Let_def)
  have s3: "step offline Acorn 0
              (snapshot [?u] [] [] 1 [LogAnalyzing ?u] [AwaitFetched ?u ?u (Inl (FetchFailed ?u))] 0 []) =
            enqueueFile_fetched offline Acorn ?u ?u (Inl (FetchFailed ?u)) ?st"
    by (simp add: snapshot_def step_def resume_def)
  have r: "run_steps offline Acorn ?u [0, 0, 0] =
             enqueueFile_fetched offline Acorn ?u ?u (Inl (FetchFailed ?u)) ?st"
    unfolding run_steps_def by (simp only: fold_simps o_apply s0 s1 s2 s3)
  note c = failures_are_swallowed [of offline Acorn "run_steps offline Acorn ?u [0, 0, 0]"]
  note d = failures_are_swallowed [of offline Acorn ?st _ _ _ _ _ ?u "FetchFailed ?u" ?u]
  from d have "console (run_steps offline Acorn ?u [0, 0, 0]) = [LogAnalyzing ?u, LogFetchFailed ?u]"
    "bundleParts (run_steps offline Acorn ?u [0, 0, 0]) = []"
    unfolding r by (simp_all add: snapshot_def)
  moreover from this(2) c
  have "fst (run_finish offline Acorn (run_steps offline Acorn ?u [0, 0, 0])) = ExitFailure"
    by blast
  moreover have "fst (run_finish twiceWorld Acorn
            (run_steps twiceWorld Acorn ''https://h/e.js'' [0, 0, 0, 0, 0, 0, 0, 0, 0])) = Reported 2 3 3"
    unfolding twice_run
    by (simp add: snapshot_def run_finish_def twiceWorld_def offline_def Let_def)
  ultimately show ?thesis by blast
qed

end
